theory Spec2Isabelle
  imports Main
begin

section \<open>JavaScript values\<close>

text \<open>
  A string is the list of its UTF-16 code units, which is what \<open>length\<close>, \<open>indexOf\<close>,
  \<open>substring\<close>, \<open>trim\<close> and a regular expression without the flag \<open>u\<close> work on. \<open>str\<close>
  writes a string of code units below 256 as a literal.
\<close>

type_synonym ustring = "nat list"

definition str :: "string \<Rightarrow> ustring" where
  "str s = map of_char s"

text \<open>
  The values the pipeline and the task store handle are what \<open>JSON.parse\<close> produces, plus
  what the program itself builds from them.

  \<^item> \<open>JObj kvs\<close> is an object whose prototype is \<open>Object.prototype\<close>, as \<open>JSON.parse\<close> and an
    object literal make it: the list of its own properties in \<open>for ... in\<close> order, where a
    key occurs once. All of them are enumerable data properties.
  \<^item> \<open>JArr xs ps\<close> is an array: the list of its elements together with its other own
    properties (a write \<open>arr[-1] = v\<close> or \<open>arr.text = v\<close> creates such a property and leaves
    the elements alone).
  \<^item> \<open>JUndefined\<close> is \<open>undefined\<close>, the result of reading a property that is absent. As an
    array element it stands for an empty slot of a sparse array: the program never stores
    \<open>undefined\<close> itself, and empty slots arise only from writes beyond the end of an array.
  \<^item> The program looks at a number only through truthiness, \<open>typeof\<close> and conversion to a
    string: \<open>JNum nonzero text\<close> is a number by whether it is neither zero nor \<open>NaN\<close> and by
    what \<open>String\<close> makes of it (\<open>1e+21\<close> for the number \<open>1e21\<close>).
\<close>

datatype json =
    JUndefined
  | JNull
  | JBool bool
  | JNum bool ustring
  | JStr ustring
  | JArr "json list" "(ustring \<times> json) list"
  | JObj "(ustring \<times> json) list"

text \<open>\<open>typeof v\<close>\<close>

fun js_typeof :: "json \<Rightarrow> ustring" where
  "js_typeof JUndefined = str ''undefined''"
| "js_typeof JNull = str ''object''"
| "js_typeof (JBool b) = str ''boolean''"
| "js_typeof (JNum nonzero text) = str ''number''"
| "js_typeof (JStr s) = str ''string''"
| "js_typeof (JArr xs ps) = str ''object''"
| "js_typeof (JObj kvs) = str ''object''"

text \<open>Truthiness: \<open>!v\<close> is \<open>\<not> truthy v\<close>.\<close>

fun truthy :: "json \<Rightarrow> bool" where
  "truthy JUndefined = False"
| "truthy JNull = False"
| "truthy (JBool b) = b"
| "truthy (JNum nonzero text) = nonzero"
| "truthy (JStr s) = (s \<noteq> [])"
| "truthy (JArr xs ps) = True"
| "truthy (JObj kvs) = True"

text \<open>\<open>Array.isArray(v)\<close>\<close>

fun isArray :: "json \<Rightarrow> bool" where
  "isArray (JArr xs ps) = True"
| "isArray _ = False"

text \<open>The elements and the other own properties of an array value.\<close>

fun elements :: "json \<Rightarrow> json list" where
  "elements (JArr xs ps) = xs"
| "elements _ = []"

fun properties :: "json \<Rightarrow> (ustring \<times> json) list" where
  "properties (JArr xs ps) = ps"
| "properties _ = []"

text \<open>Decimal numerals, for template literals and property keys.\<close>

definition digit_unit :: "nat \<Rightarrow> nat" where
  "digit_unit d = 48 + d"

fun show_nat :: "nat \<Rightarrow> ustring" where
  "show_nat n = (if n < 10 then [digit_unit n] else show_nat (n div 10) @ [digit_unit (n mod 10)])"

declare show_nat.simps [simp del]

definition show_int :: "int \<Rightarrow> ustring" where
  "show_int i = (if i < 0 then 45 # show_nat (nat (- i)) else show_nat (nat i))"

text \<open>
  The properties that the program reads by name from a task, from the body of an error
  response and from the error in it. None of these names is an index or \<open>length\<close>, and no
  prototype (\<open>Object.prototype\<close>, \<open>Array.prototype\<close>, or the prototype of a string, a number or a
  boolean) defines one of them: reading one finds an own property or nothing.
\<close>

datatype field = TextField | CompletedField | ErrorField | MessageField

fun field_name :: "field \<Rightarrow> ustring" where
  "field_name TextField = str ''text''"
| "field_name CompletedField = str ''completed''"
| "field_name ErrorField = str ''error''"
| "field_name MessageField = str ''message''"

text \<open>\<open>v.text\<close>, \<open>v.completed\<close>, \<open>v.error\<close>, \<open>v.message\<close>, for a value other than \<open>null\<close> and \<open>undefined\<close>.\<close>

fun get_prop :: "json \<Rightarrow> field \<Rightarrow> json" where
  "get_prop (JObj kvs) f = (case map_of kvs (field_name f) of Some v \<Rightarrow> v | None \<Rightarrow> JUndefined)"
| "get_prop (JArr xs ps) f = (case map_of ps (field_name f) of Some v \<Rightarrow> v | None \<Rightarrow> JUndefined)"
| "get_prop _ f = JUndefined"

text \<open>\<open>'text' in v\<close> for an object or an array.\<close>

fun has_prop :: "json \<Rightarrow> field \<Rightarrow> bool" where
  "has_prop (JObj kvs) f = (case map_of kvs (field_name f) of Some v \<Rightarrow> True | None \<Rightarrow> False)"
| "has_prop (JArr xs ps) f = (case map_of ps (field_name f) of Some v \<Rightarrow> True | None \<Rightarrow> False)"
| "has_prop _ f = False"

text \<open>
  \<open>obj[key] = v\<close> on a list of own properties: an existing key keeps its place, a new one
  is added last (JavaScript enumerates a new key that is an array index before the other
  keys; no statement below depends on where a new key stands).
\<close>

fun set_prop :: "(ustring \<times> json) list \<Rightarrow> ustring \<Rightarrow> json \<Rightarrow> (ustring \<times> json) list" where
  "set_prop [] key v = [(key, v)]"
| "set_prop ((k, w) # kvs) key v = (if k = key then (k, v) # kvs else (k, w) # set_prop kvs key v)"

text \<open>
  The properties \<open>for (const key in v)\<close> visits, each with \<open>v[key]\<close>: for an array its
  indices that are not empty slots, then its other properties. Nothing that
  \<open>Object.prototype\<close> or \<open>Array.prototype\<close> defines is enumerable.
\<close>

fun indexed_from :: "nat \<Rightarrow> json list \<Rightarrow> (ustring \<times> json) list" where
  "indexed_from i [] = []"
| "indexed_from i (x # xs) =
     (if x = JUndefined then indexed_from (Suc i) xs else (show_nat i, x) # indexed_from (Suc i) xs)"

fun own_entries :: "json \<Rightarrow> (ustring \<times> json) list" where
  "own_entries (JObj kvs) = kvs"
| "own_entries (JArr xs ps) = indexed_from 0 xs @ ps"
| "own_entries _ = []"

text \<open>
  \<open>Array.prototype.every\<close> and \<open>Array.prototype.map\<close> do not call their callback on an empty
  slot; \<open>map\<close> leaves the slot empty in the new array, which has no other properties.
\<close>

definition js_every :: "(json \<Rightarrow> bool) \<Rightarrow> json list \<Rightarrow> bool" where
  "js_every p xs = list_all (\<lambda>x. x = JUndefined \<or> p x) xs"

definition js_map :: "(json \<Rightarrow> json) \<Rightarrow> json list \<Rightarrow> json" where
  "js_map f xs = JArr (map (\<lambda>x. if x = JUndefined then JUndefined else f x) xs) []"

text \<open>
  \<open>String(v)\<close> and \<open>`${v}`\<close>. An array is joined with commas, \<open>null\<close> and empty slots giving
  nothing; an object prints as \<open>[object Object]\<close>. (The conversion of an object or an array
  calls its \<open>toString\<close>: the inherited one, unless the value has a property of that name or,
  for an array, of the name \<open>join\<close>; the arrays and objects met here are tasks and task
  texts, which have neither.)
\<close>

fun join_comma :: "ustring list \<Rightarrow> ustring" where
  "join_comma [] = []"
| "join_comma [s] = s"
| "join_comma (s # t # ss) = s @ str '','' @ join_comma (t # ss)"

fun js_String :: "json \<Rightarrow> ustring" where
  "js_String JUndefined = str ''undefined''"
| "js_String JNull = str ''null''"
| "js_String (JBool b) = (if b then str ''true'' else str ''false'')"
| "js_String (JNum nonzero text) = text"
| "js_String (JStr s) = s"
| "js_String (JArr xs ps) =
     join_comma (map (\<lambda>x. if x = JUndefined \<or> x = JNull then [] else js_String x) xs)"
| "js_String (JObj kvs) = str ''[object Object]''"

text \<open>
  An object that the program uses as a dictionary from department names to arrays: the
  collection that normalization builds and the store. It starts as \<open>{}\<close>, with the prototype
  \<open>Object.prototype\<close>; an assignment \<open>obj['__proto__'] = arr\<close> runs the accessor of
  \<open>Object.prototype\<close> and makes \<open>arr\<close> the prototype instead. \<open>Dict kvs proto\<close> is the object with
  the own properties \<open>kvs\<close> and the prototype \<open>Object.prototype\<close> (\<open>None\<close>) or the array with the
  elements \<open>xs\<close> and the further properties \<open>ps\<close> (\<open>Some (xs, ps)\<close>).
\<close>

datatype dict = Dict "(ustring \<times> json) list" "(json list \<times> (ustring \<times> json) list) option"

fun own_props :: "dict \<Rightarrow> (ustring \<times> json) list" where
  "own_props (Dict kvs proto) = kvs"

text \<open>
  The names that every object inherits from \<open>Object.prototype\<close>, each the name of a
  function, and the names an array inherits from \<open>Array.prototype\<close> in addition. None of
  them is enumerable. \<open>__proto__\<close> is an accessor of \<open>Object.prototype\<close>: reading it gives the
  prototype of the object it is read from.
\<close>

definition object_members :: "ustring list" where
  "object_members =
     map str [''constructor'', ''hasOwnProperty'', ''isPrototypeOf'', ''propertyIsEnumerable'',
              ''toLocaleString'', ''toString'', ''valueOf'', ''__defineGetter__'',
              ''__defineSetter__'', ''__lookupGetter__'', ''__lookupSetter__'']"

definition array_members :: "ustring list" where
  "array_members =
     map str [''at'', ''concat'', ''copyWithin'', ''entries'', ''every'', ''fill'', ''filter'',
              ''find'', ''findIndex'', ''findLast'', ''findLastIndex'', ''flat'', ''flatMap'',
              ''forEach'', ''includes'', ''indexOf'', ''join'', ''keys'', ''lastIndexOf'', ''map'',
              ''pop'', ''push'', ''reduce'', ''reduceRight'', ''reverse'', ''shift'', ''slice'',
              ''some'', ''sort'', ''splice'', ''toReversed'', ''toSorted'', ''toSpliced'',
              ''unshift'', ''values'', ''with'']"

definition proto_key :: ustring where
  "proto_key = str ''__proto__''"

text \<open>
  What \<open>obj[key]\<close> finds: a value of the data, \<open>undefined\<close> when there is no such property, or
  something built in, which is a function or \<open>Object.prototype\<close> itself: truthy, an object
  or a function, not an array, and without a property at any index.
\<close>

datatype found = Found json | Builtin

fun found_truthy :: "found \<Rightarrow> bool" where
  "found_truthy (Found v) = truthy v"
| "found_truthy Builtin = True"

fun found_isArray :: "found \<Rightarrow> bool" where
  "found_isArray (Found v) = isArray v"
| "found_isArray Builtin = False"

text \<open>
  The own properties of an array, by key: its elements that are not empty slots, under the
  decimal numerals of their indices; \<open>length\<close>; its other properties.
\<close>

fun index_lookup :: "json list \<Rightarrow> nat \<Rightarrow> ustring \<Rightarrow> json option" where
  "index_lookup [] i key = None"
| "index_lookup (x # xs) i key =
     (if key = show_nat i then (if x = JUndefined then None else Some x)
      else index_lookup xs (Suc i) key)"

definition array_own :: "json list \<Rightarrow> (ustring \<times> json) list \<Rightarrow> ustring \<Rightarrow> json option" where
  "array_own xs ps key =
     (case index_lookup xs 0 key of
        Some v \<Rightarrow> Some v
      | None \<Rightarrow>
         (if key = str ''length'' then Some (JNum (length xs \<noteq> 0) (show_nat (length xs)))
          else map_of ps key))"

text \<open>
  \<open>obj[key]\<close> with any string as key: an own property first, then what the prototype chain
  has. With the prototype \<open>Object.prototype\<close> the key \<open>__proto__\<close> finds that object; with an
  array as prototype it finds the array.
\<close>

fun lookup :: "dict \<Rightarrow> ustring \<Rightarrow> found" where
  "lookup (Dict kvs None) key =
     (case map_of kvs key of
        Some v \<Rightarrow> Found v
      | None \<Rightarrow>
         (if key \<in> set object_members \<or> key = proto_key then Builtin else Found JUndefined))"
| "lookup (Dict kvs (Some (xs, ps))) key =
     (case map_of kvs key of
        Some v \<Rightarrow> Found v
      | None \<Rightarrow>
         (case array_own xs ps key of
            Some v \<Rightarrow> Found v
          | None \<Rightarrow>
             (if key \<in> set array_members \<or> key \<in> set object_members then Builtin
              else if key = proto_key then Found (JArr xs ps)
              else Found JUndefined)))"

text \<open>
  The properties \<open>for (const key in obj)\<close> visits, each with \<open>obj[key]\<close>: the own ones, then
  the enumerable ones of the prototype that no own property hides.
\<close>

fun for_in :: "dict \<Rightarrow> (ustring \<times> json) list" where
  "for_in (Dict kvs None) = kvs"
| "for_in (Dict kvs (Some (xs, ps))) =
     kvs @ filter (\<lambda>(key, v). map_of kvs key = None) (own_entries (JArr xs ps))"

text \<open>
  \<open>obj[key] = v\<close>, where \<open>v\<close> is an array (the program assigns nothing else to a dictionary).
  A key the object has is overwritten. Otherwise the key \<open>__proto__\<close>, unless the prototype
  has a property of that name itself, reaches the accessor, which replaces the prototype
  and creates no property. Any other key becomes a new own property, also when the
  prototype has a property of that name.
\<close>

fun reaches_accessor :: "dict \<Rightarrow> ustring \<Rightarrow> bool" where
  "reaches_accessor (Dict kvs None) key = (map_of kvs key = None \<and> key = proto_key)"
| "reaches_accessor (Dict kvs (Some (xs, ps))) key =
     (map_of kvs key = None \<and> array_own xs ps key = None \<and> key = proto_key)"

fun assign :: "dict \<Rightarrow> ustring \<Rightarrow> json \<Rightarrow> dict" where
  "assign (Dict kvs proto) key v =
     (if reaches_accessor (Dict kvs proto) key then Dict kvs (Some (elements v, properties v))
      else Dict (set_prop kvs key v) proto)"

text \<open>
  A change in place of the array that \<open>obj[key]\<close> is (\<open>splice\<close>, \<open>push\<close>, a write to an
  element): \<open>v\<close> is the array after the change. The array is an own property of the object,
  or an element or a further property of its prototype, or the prototype itself.
\<close>

fun replace_index :: "json list \<Rightarrow> nat \<Rightarrow> ustring \<Rightarrow> json \<Rightarrow> json list" where
  "replace_index [] i key v = []"
| "replace_index (x # xs) i key v =
     (if key = show_nat i then v # xs else x # replace_index xs (Suc i) key v)"

fun changed_in_place :: "dict \<Rightarrow> ustring \<Rightarrow> json \<Rightarrow> dict" where
  "changed_in_place (Dict kvs None) key v =
     (case map_of kvs key of Some w \<Rightarrow> Dict (set_prop kvs key v) None | None \<Rightarrow> Dict kvs None)"
| "changed_in_place (Dict kvs (Some (xs, ps))) key v =
     (case map_of kvs key of
        Some w \<Rightarrow> Dict (set_prop kvs key v) (Some (xs, ps))
      | None \<Rightarrow>
         (case index_lookup xs 0 key of
            Some w \<Rightarrow> Dict kvs (Some (replace_index xs 0 key v, ps))
          | None \<Rightarrow>
             (if key = str ''length'' then Dict kvs (Some (xs, ps))
              else
                (case map_of ps key of
                   Some w \<Rightarrow> Dict kvs (Some (xs, set_prop ps key v))
                 | None \<Rightarrow>
                    (if key = proto_key then Dict kvs (Some (elements v, properties v))
                     else Dict kvs (Some (xs, ps)))))))"

section \<open>Schema validator\<close>

record validation =
  isValid :: bool
  error :: "ustring option"

definition dq :: ustring where
  "dq = [34]"

definition not_array_message :: "ustring \<Rightarrow> json \<Rightarrow> ustring" where
  "not_array_message key v =
     str ''Invalid structure: department '' @ dq @ key @ dq @ str '' should be an array, got ''
     @ js_typeof v"

definition non_string_message :: "ustring \<Rightarrow> ustring" where
  "non_string_message key =
     str ''Invalid structure: department '' @ dq @ key @ dq @ str '' contains non-string items''"

text \<open>The loop \<open>for (const key in data)\<close> of \<open>validateJsonStructure\<close>: the first violation returns.\<close>

fun validate_entries :: "(ustring \<times> json) list \<Rightarrow> validation option" where
  "validate_entries [] = None"
| "validate_entries ((key, v) # rest) =
     (if \<not> isArray v then
        Some \<lparr>isValid = False, error = Some (not_array_message key v)\<rparr>
      else if \<not> js_every (\<lambda>task. js_typeof task = str ''string'') (elements v) then
        Some \<lparr>isValid = False, error = Some (non_string_message key)\<rparr>
      else validate_entries rest)"

text \<open>\<open>validateJsonStructure\<close> of \<open>src/index.js\<close>; its argument is what \<open>JSON.parse\<close> gave.\<close>

definition validateJsonStructure :: "json \<Rightarrow> validation" where
  "validateJsonStructure data =
     (if \<not> truthy data \<or> js_typeof data \<noteq> str ''object'' \<or> isArray data then
        \<lparr>isValid = False,
         error = Some (str ''Invalid response: expected an object with department keys'')\<rparr>
      else
        (case validate_entries (own_entries data) of
           Some failure \<Rightarrow> failure
         | None \<Rightarrow>
            (if length (own_entries data) = 0 then
               \<lparr>isValid = False,
                error = Some (str ''Invalid response: no departments found in the response'')\<rparr>
             else \<lparr>isValid = True, error = None\<rparr>)))"

section \<open>Task normalizer\<close>

text \<open>The object literal \<open>{ text: t, completed: c }\<close>.\<close>

definition task_obj :: "json \<Rightarrow> json \<Rightarrow> json" where
  "task_obj t c = JObj [(str ''text'', t), (str ''completed'', c)]"

text \<open>\<open>v || ''\<close>\<close>

definition or_empty :: "json \<Rightarrow> json" where
  "or_empty v = (if truthy v then v else JStr [])"

text \<open>The callback of \<open>convertTasksToObjects\<close>.\<close>

definition convertTask :: "json \<Rightarrow> json" where
  "convertTask task =
     (if js_typeof task = str ''object'' \<and> task \<noteq> JNull \<and> has_prop task TextField then
        task_obj (or_empty (get_prop task TextField))
                 (JBool (get_prop task CompletedField = JBool True))
      else if js_typeof task = str ''string'' then task_obj task (JBool False)
      else task_obj (JStr (js_String task)) (JBool False))"

text \<open>
  The argument and the result of \<open>convertTasksToObjects\<close>: a value as \<open>JSON.parse\<close> gave it, or
  a dictionary that an earlier call has built.
\<close>

datatype data = Parsed json | Collection dict

text \<open>The value the loop assigns to \<open>converted[department]\<close>.\<close>

definition convertDepartment :: "json \<Rightarrow> json" where
  "convertDepartment v = (if isArray v then js_map convertTask (elements v) else JArr [] [])"

text \<open>
  The loop \<open>for (const department in data)\<close> starts from \<open>converted = {}\<close> and assigns each
  department in turn; \<open>entries\<close> is what the loop visits, each key with \<open>data[department]\<close>.
  Every key but \<open>__proto__\<close> becomes an own property of \<open>converted\<close>, in the order of the
  loop; the assignment to \<open>__proto__\<close> makes the array the prototype of \<open>converted\<close> (see
  \<open>assign\<close>).
\<close>

fun converted_prototype ::
  "(ustring \<times> json) list \<Rightarrow> (json list \<times> (ustring \<times> json) list) option" where
  "converted_prototype [] = None"
| "converted_prototype ((department, v) # rest) =
     (if department = proto_key
      then Some (elements (convertDepartment v), properties (convertDepartment v))
      else converted_prototype rest)"

definition convert_entries :: "(ustring \<times> json) list \<Rightarrow> dict" where
  "convert_entries entries =
     Dict (map (\<lambda>(department, v). (department, convertDepartment v))
             (filter (\<lambda>(department, v). department \<noteq> proto_key) entries))
          (converted_prototype entries)"

fun convertTasksToObjects :: "data \<Rightarrow> data" where
  "convertTasksToObjects (Parsed v) =
     (if \<not> truthy v \<or> js_typeof v \<noteq> str ''object'' then Parsed v
      else Collection (convert_entries (own_entries v)))"
| "convertTasksToObjects (Collection d) = Collection (convert_entries (for_in d))"

section \<open>Response extractor\<close>

text \<open>
  White space is what \<open>trim\<close> strips and the class \<open>\s\<close> of a regular expression accepts: the
  code units of \<open>WhiteSpace\<close> and \<open>LineTerminator\<close>, that is TAB, LF, VT, FF, CR, SPACE,
  U+00A0, U+1680, U+2000 to U+200A, U+2028, U+2029, U+202F, U+205F, U+3000 and U+FEFF.
\<close>

definition is_space :: "nat \<Rightarrow> bool" where
  "is_space c =
     (c \<in> set [0x09, 0x0A, 0x0B, 0x0C, 0x0D, 0x20, 0xA0, 0x1680, 0x2028, 0x2029, 0x202F,
                0x205F, 0x3000, 0xFEFF]
      \<or> (0x2000 \<le> c \<and> c \<le> 0x200A))"

definition trim_end :: "ustring \<Rightarrow> ustring" where
  "trim_end s = rev (dropWhile is_space (rev s))"

definition trim :: "ustring \<Rightarrow> ustring" where
  "trim s = trim_end (dropWhile is_space s)"

text \<open>\<open>s.indexOf(c)\<close> and \<open>s.lastIndexOf(c)\<close> for a one-character \<open>c\<close>: \<open>-1\<close> when absent.\<close>

definition open_brace :: nat where
  "open_brace = 0x7B"

definition close_brace :: nat where
  "close_brace = 0x7D"

fun index_from :: "nat \<Rightarrow> nat \<Rightarrow> ustring \<Rightarrow> int" where
  "index_from i c [] = - 1"
| "index_from i c (x # xs) = (if x = c then int i else index_from (Suc i) c xs)"

definition indexOf :: "ustring \<Rightarrow> nat \<Rightarrow> int" where
  "indexOf s c = index_from 0 c s"

fun last_index_from :: "nat \<Rightarrow> nat \<Rightarrow> int \<Rightarrow> ustring \<Rightarrow> int" where
  "last_index_from i c found [] = found"
| "last_index_from i c found (x # xs) =
     last_index_from (Suc i) c (if x = c then int i else found) xs"

definition lastIndexOf :: "ustring \<Rightarrow> nat \<Rightarrow> int" where
  "lastIndexOf s c = last_index_from 0 c (- 1) s"

text \<open>\<open>s.substring(a, b)\<close>: both ends are clamped to the string and swapped when out of order.\<close>

definition substring :: "ustring \<Rightarrow> int \<Rightarrow> int \<Rightarrow> ustring" where
  "substring s a b =
     (let n = int (length s);
          a' = max 0 (min a n);
          b' = max 0 (min b n);
          lo = min a' b';
          hi = max a' b'
      in take (nat (hi - lo)) (drop (nat lo) s))"

text \<open>The position of the first occurrence of a pattern in a string.\<close>

definition starts_with :: "ustring \<Rightarrow> ustring \<Rightarrow> bool" where
  "starts_with pat s = (take (length pat) s = pat)"

fun find_sub :: "ustring \<Rightarrow> ustring \<Rightarrow> nat option" where
  "find_sub pat [] = (if pat = [] then Some 0 else None)"
| "find_sub pat (c # cs) =
     (if starts_with pat (c # cs) then Some 0 else map_option Suc (find_sub pat cs))"

text \<open>The fence of three backticks and the language tag.\<close>

definition fence :: ustring where
  "fence = [0x60, 0x60, 0x60]"

definition json_tag :: ustring where
  "json_tag = [0x6A, 0x73, 0x6F, 0x6E]"

text \<open>
  \<open>s.match(/```(?:json)?\s*([\s\S]*?)\s*```/)\<close>: the first capture group of the leftmost
  match, when there is one. The matcher is the backtracking one of the language: each
  piece of the pattern is a function of the text still to match and of the continuation
  that matches the rest of the pattern; a greedy piece tries its longest choice first, a
  lazy one its shortest, and each falls back to its next choice when the continuation
  fails.
\<close>

definition m_lit :: "ustring \<Rightarrow> (ustring \<Rightarrow> 'a option) \<Rightarrow> ustring \<Rightarrow> 'a option" where
  "m_lit pat k s = (if starts_with pat s then k (drop (length pat) s) else None)"

text \<open>\<open>(?:pat)?\<close>, greedy.\<close>

definition m_opt :: "ustring \<Rightarrow> (ustring \<Rightarrow> 'a option) \<Rightarrow> ustring \<Rightarrow> 'a option" where
  "m_opt pat k s = (case m_lit pat k s of Some r \<Rightarrow> Some r | None \<Rightarrow> k s)"

text \<open>\<open>\s*\<close>, greedy.\<close>

fun m_spaces :: "(ustring \<Rightarrow> 'a option) \<Rightarrow> ustring \<Rightarrow> 'a option" where
  "m_spaces k [] = k []"
| "m_spaces k (c # cs) =
     (if is_space c then (case m_spaces k cs of Some r \<Rightarrow> Some r | None \<Rightarrow> k (c # cs))
      else k (c # cs))"

text \<open>\<open>([\s\S]*?)\<close>, lazy; the continuation receives what the group has captured.\<close>

fun m_lazy :: "(ustring \<Rightarrow> ustring \<Rightarrow> 'a option) \<Rightarrow> ustring \<Rightarrow> ustring \<Rightarrow> 'a option" where
  "m_lazy k captured [] = k captured []"
| "m_lazy k captured (c # cs) =
     (case k captured (c # cs) of Some r \<Rightarrow> Some r | None \<Rightarrow> m_lazy k (captured @ [c]) cs)"

text \<open>The pattern, matched at the start of a text; the result is the capture group.\<close>

definition fence_pattern :: "ustring \<Rightarrow> ustring option" where
  "fence_pattern =
     m_lit fence (m_opt json_tag (m_spaces
       (m_lazy (\<lambda>captured. m_spaces (m_lit fence (\<lambda>rest. Some captured))) [])))"

text \<open>\<open>match\<close> tries the start positions from left to right.\<close>

fun match_fenced_block :: "ustring \<Rightarrow> ustring option" where
  "match_fenced_block [] = fence_pattern []"
| "match_fenced_block (c # cs) =
     (case fence_pattern (c # cs) of Some group1 \<Rightarrow> Some group1 | None \<Rightarrow> match_fenced_block cs)"

text \<open>
  On this pattern every choice of the matcher is forced, because neither \<open>json\<close> nor white
  space contains a backtick. The closed form of the match, proved equal to it below: the
  match starts at the first fence; the tag and the whole run of white space after it are
  skipped; the group ends before the white space that precedes the next fence.
\<close>

definition fenced_capture :: "ustring \<Rightarrow> ustring option" where
  "fenced_capture s =
     (case find_sub fence s of
        None \<Rightarrow> None
      | Some i \<Rightarrow>
          (let after_open = drop (i + 3) s;
               after_tag = (if starts_with json_tag after_open then drop 4 after_open else after_open);
               body = dropWhile is_space after_tag
           in case find_sub fence body of
                None \<Rightarrow> None
              | Some j \<Rightarrow> Some (trim_end (take j body))))"

text \<open>Pieces of the closed form, for the proof: a fence occurs; the group from the text after
  the white space; the match from the text after the opening fence.\<close>

definition has_fence :: "ustring \<Rightarrow> bool" where
  "has_fence s = (find_sub fence s \<noteq> None)"

definition capture_from :: "ustring \<Rightarrow> ustring option" where
  "capture_from s = (case find_sub fence s of None \<Rightarrow> None | Some j \<Rightarrow> Some (trim_end (take j s)))"

definition after_fence :: "ustring \<Rightarrow> ustring option" where
  "after_fence r = capture_from (dropWhile is_space (if starts_with json_tag r then drop 4 r else r))"

datatype js_error = Error ustring | TypeError

text \<open>
  \<open>extractJsonFromResponse\<close> of \<open>src/index.js\<close>; the argument is a string by its type.
  \<open>unfenced\<close> is its first half: the trimmed text, or the trimmed content of its fenced block.
\<close>

definition unfenced :: "ustring \<Rightarrow> ustring" where
  "unfenced responseText =
     (let jsonString = trim responseText
      in case match_fenced_block jsonString of
           Some group1 \<Rightarrow> trim group1
         | None \<Rightarrow> jsonString)"

definition extractJsonFromResponse :: "ustring \<Rightarrow> js_error + ustring" where
  "extractJsonFromResponse responseText =
     (if responseText = [] then Inl (Error (str ''Invalid response: expected string content''))
      else
        (let jsonString = unfenced responseText;
             firstBrace = indexOf jsonString open_brace;
             lastBrace = lastIndexOf jsonString close_brace
         in if firstBrace \<noteq> - 1 \<and> lastBrace \<noteq> - 1 \<and> lastBrace > firstBrace
            then Inr (substring jsonString firstBrace (lastBrace + 1))
            else Inr jsonString))"

text \<open>The \<open>extractJsonFromResponse\<close> of the page script bundled in \<open>server.js\<close>.\<close>

definition extractJsonFromResponse_gemini :: "ustring \<Rightarrow> js_error + ustring" where
  "extractJsonFromResponse_gemini text =
     (let firstBrace = indexOf text open_brace;
          lastBrace = lastIndexOf text close_brace
      in if firstBrace = - 1 \<or> lastBrace = - 1 \<or> lastBrace \<le> firstBrace
         then Inl (Error (str ''No JSON object found in Gemini response''))
         else Inr (substring text firstBrace (lastBrace + 1)))"

section \<open>Transport errors\<close>

text \<open>
  The branch \<open>if (!response.ok)\<close> of \<open>parseInstructions\<close>, the handler of the page for the
  answer of the local server. \<open>errorData\<close> is the parsed body of the response, or \<open>{}\<close> when
  the body is not JSON. The result is what the branch throws; \<open>None\<close> when the response is
  ok and the branch is not taken. Reading \<open>errorData.error\<close> of \<open>null\<close> is a \<open>TypeError\<close>.
\<close>

definition response_ok :: "int \<Rightarrow> bool" where
  "response_ok status = (200 \<le> status \<and> status \<le> 299)"

definition auth_error :: js_error where
  "auth_error = Error (str ''Invalid API key. Please check server configuration.'')"

definition rate_limit_error :: js_error where
  "rate_limit_error = Error (str ''Rate limit exceeded. Please try again later.'')"

definition server_error :: js_error where
  "server_error = Error (str ''Server error. Please try again later.'')"

definition errorMessage :: "int \<Rightarrow> json \<Rightarrow> ustring" where
  "errorMessage status errorData =
     (if truthy (get_prop errorData ErrorField) then js_String (get_prop errorData ErrorField)
      else str ''Request failed with status '' @ show_int status)"

definition parseInstructions_failure :: "int \<Rightarrow> json \<Rightarrow> js_error option" where
  "parseInstructions_failure status errorData =
     (if response_ok status then None
      else if errorData = JNull \<or> errorData = JUndefined then Some TypeError
      else if status = 401 then Some auth_error
      else if status = 429 then Some rate_limit_error
      else if status \<ge> 500 then Some server_error
      else Some (Error (errorMessage status errorData)))"

text \<open>
  The branch \<open>if (!response.ok)\<close> of the server (\<open>app.post('/api/parse-instructions', ...)\<close>
  in the Gemini server), the handler for the answer of the provider. \<open>errorData\<close> is the
  parsed body of the provider's response, or \<open>{ error: { message: errorText } }\<close> when the
  body is not JSON. The result is the status and the \<open>error\<close> text of the reply to the page;
  a \<open>TypeError\<close> is caught by the handler and answered with status 500.
\<close>

datatype reply = Reply int ustring | Caught js_error

definition optional_message :: "json \<Rightarrow> json" where
  "optional_message e = (if e = JNull \<or> e = JUndefined then JUndefined else get_prop e MessageField)"

definition providerErrorMessage :: "int \<Rightarrow> json \<Rightarrow> ustring" where
  "providerErrorMessage status errorData =
     (if truthy (optional_message (get_prop errorData ErrorField))
      then js_String (optional_message (get_prop errorData ErrorField))
      else str ''API request failed with status '' @ show_int status)"

definition provider_failure :: "int \<Rightarrow> json \<Rightarrow> reply option" where
  "provider_failure status errorData =
     (if response_ok status then None
      else if errorData = JNull \<or> errorData = JUndefined then Some (Caught TypeError)
      else if status = 401 \<or> status = 403 then
        Some (Reply 401
          (str ''Invalid API key. Please check your GEMINI_API_KEY environment variable.''))
      else if status = 429 then Some (Reply 429 (str ''Rate limit exceeded. Please try again later.''))
      else if status \<ge> 500 then
        Some (Reply 502 (str ''Gemini API server error. Please try again later.''))
      else Some (Reply status (str ''API Error: '' @ providerErrorMessage status errorData)))"

section \<open>Task store\<close>

text \<open>
  The store is the variable \<open>currentData\<close>: \<open>null\<close> (\<open>None\<close>) or a dictionary. It is only ever
  assigned \<open>null\<close>, \<open>{}\<close> or a converted collection. The functions below are the effect of the
  functions of the page on the store; what they do to the document is left out.
\<close>

type_synonym store = "dict option"

text \<open>
  \<open>arr[index]\<close> with a number as index. An integer from \<open>0\<close> to \<open>2^32 - 2\<close> is an array index;
  any other integer names an ordinary property, by its decimal numeral. A write at an
  index beyond the end leaves empty slots in between.
\<close>

definition is_array_index :: "int \<Rightarrow> bool" where
  "is_array_index i = (0 \<le> i \<and> i < 4294967295)"

fun arr_get :: "json \<Rightarrow> int \<Rightarrow> json" where
  "arr_get (JArr xs ps) i =
     (if is_array_index i then (if nat i < length xs then xs ! nat i else JUndefined)
      else (case map_of ps (show_int i) of Some v \<Rightarrow> v | None \<Rightarrow> JUndefined))"
| "arr_get _ i = JUndefined"

fun arr_set :: "json \<Rightarrow> int \<Rightarrow> json \<Rightarrow> json" where
  "arr_set (JArr xs ps) i v =
     (if is_array_index i then
        (if nat i < length xs then JArr (xs[nat i := v]) ps
         else JArr (xs @ replicate (nat i - length xs) JUndefined @ [v]) ps)
      else JArr xs (set_prop ps (show_int i) v))"
| "arr_set other i v = other"

text \<open>\<open>slot.text = v\<close> and \<open>slot.completed = v\<close> on an object or an array.\<close>

fun set_field :: "json \<Rightarrow> field \<Rightarrow> json \<Rightarrow> json" where
  "set_field (JObj kvs) f v = JObj (set_prop kvs (field_name f) v)"
| "set_field (JArr xs ps) f v = JArr xs (set_prop ps (field_name f) v)"
| "set_field other f v = other"

text \<open>The callback of \<open>validateDataStructure\<close>.\<close>

definition validateTask :: "json \<Rightarrow> json" where
  "validateTask task =
     (if js_typeof task = str ''object'' \<and> task \<noteq> JNull \<and> has_prop task TextField then
        task_obj (or_empty (get_prop task TextField))
                 (JBool (get_prop task CompletedField = JBool True))
      else task_obj (if js_typeof task = str ''string'' then task else JStr (js_String task))
                    (JBool False))"

text \<open>The value the loop of \<open>validateDataStructure\<close> assigns to \<open>currentData[department]\<close>.\<close>

definition validateDepartment :: "json \<Rightarrow> json" where
  "validateDepartment v = (if \<not> isArray v then JArr [] [] else js_map validateTask (elements v))"

text \<open>
  The loop \<open>for (const department in currentData)\<close> visits the own properties and the
  enumerable properties of the prototype, and assigns to each key. An own property is
  overwritten; a key of the prototype becomes an own property (see \<open>assign\<close>), after the
  ones that were there. The prototype stays as it is.
\<close>

fun validateDataStructure :: "store \<Rightarrow> store" where
  "validateDataStructure None = None"
| "validateDataStructure (Some (Dict kvs proto)) =
     Some (Dict (map (\<lambda>(department, v). (department, validateDepartment v))
                   (for_in (Dict kvs proto)))
                proto)"

text \<open>
  What \<open>renderDepartmentGroups(currentData)\<close> does to the store: it returns at once when
  \<open>!data || Object.keys(data).length === 0\<close>, and calls \<open>validateDataStructure\<close> otherwise.
\<close>

fun renderDepartmentGroups :: "store \<Rightarrow> store" where
  "renderDepartmentGroups None = None"
| "renderDepartmentGroups (Some d) =
     (if length (own_props d) = 0 then Some d else validateDataStructure (Some d))"


fun updateTaskCompletionInData :: "ustring \<Rightarrow> int \<Rightarrow> json \<Rightarrow> store \<Rightarrow> store" where
  "updateTaskCompletionInData department index completed None = None"
| "updateTaskCompletionInData department index completed (Some d) =
     (if \<not> found_truthy (lookup d department) then Some d
      else
        (let d1 = (if \<not> found_isArray (lookup d department) then assign d department (JArr [] [])
                   else d)
         in case lookup d1 department of
              Found arr \<Rightarrow>
                (let arr1 = (if \<not> truthy (arr_get arr index)
                                \<or> js_typeof (arr_get arr index) \<noteq> str ''object''
                             then arr_set arr index
                                    (task_obj (or_empty (arr_get arr index)) (JBool False))
                             else arr);
                     arr2 = arr_set arr1 index
                              (set_field (arr_get arr1 index) CompletedField
                                 (JBool (completed = JBool True)))
                 in Some (changed_in_place d1 department arr2))
            | Builtin \<Rightarrow> Some d1))"

text \<open>\<open>xs.splice(start, deleteCount)\<close>: the elements that remain.\<close>

definition splice :: "json list \<Rightarrow> int \<Rightarrow> int \<Rightarrow> json list" where
  "splice xs start deleteCount =
     (let len = int (length xs);
          actualStart = (if start < 0 then max (len + start) 0 else min start len);
          actualDeleteCount = min (max deleteCount 0) (len - actualStart)
      in take (nat actualStart) xs @ drop (nat (actualStart + actualDeleteCount)) xs)"

fun removeTask :: "ustring \<Rightarrow> int \<Rightarrow> store \<Rightarrow> store" where
  "removeTask department index None = None"
| "removeTask department index (Some d) =
     (case lookup d department of
        Found (JArr xs ps) \<Rightarrow>
          renderDepartmentGroups
            (Some (changed_in_place d department (JArr (splice xs index 1) ps)))
      | _ \<Rightarrow> Some d)"

text \<open>
  \<open>addTask\<close> has no \<open>return\<close> statement: the value of a call is \<open>undefined\<close>. The result is
  that value and the new store. After the first three statements \<open>currentData[department]\<close>
  is an array, so that the last case of the reading below does not arise.
\<close>

definition empty_task :: json where
  "empty_task = task_obj (JStr []) (JBool False)"



text \<open>\<open>currentData[department]\<close>, for the statements below; \<open>undefined\<close> while the store is \<open>null\<close>.\<close>

fun department_value :: "store \<Rightarrow> ustring \<Rightarrow> found" where
  "department_value None department = Found JUndefined"
| "department_value (Some d) department = lookup d department"



section \<open>Export formatter\<close>

definition nl :: ustring where
  "nl = [0x0A]"







section \<open>Shapes the specification names\<close>

text \<open>An array of strings, as \<open>validateJsonStructure\<close> tests it (empty slots are passed over).\<close>

definition string_array :: "json \<Rightarrow> bool" where
  "string_array v = (isArray v \<and> js_every (\<lambda>task. js_typeof task = str ''string'') (elements v))"

text \<open>An array whose elements are all strings, without empty slots or further properties.\<close>

fun is_string :: "json \<Rightarrow> bool" where
  "is_string (JStr s) = True"
| "is_string _ = False"

fun strings_only :: "json \<Rightarrow> bool" where
  "strings_only (JArr xs ps) = list_all is_string xs"
| "strings_only _ = False"

text \<open>
  The canonical task \<open>{ text: string, completed: boolean }\<close>, as every object literal of the
  program writes it.
\<close>

fun canonical_task :: "json \<Rightarrow> bool" where
  "canonical_task (JObj [(k1, JStr t), (k2, JBool c)]) = (k1 = str ''text'' \<and> k2 = str ''completed'')"
| "canonical_task _ = False"

text \<open>An array of canonical tasks, without empty slots or further properties.\<close>

fun canonical_tasks :: "json \<Rightarrow> bool" where
  "canonical_tasks (JArr xs ps) = (ps = [] \<and> list_all canonical_task xs)"
| "canonical_tasks _ = False"

text \<open>The department is a key of the store, with the value \<open>v\<close>.\<close>

fun holds :: "store \<Rightarrow> ustring \<Rightarrow> json \<Rightarrow> bool" where
  "holds None department v = False"
| "holds (Some (Dict kvs proto)) department v = (map_of kvs department = Some v)"

text \<open>
  The first and the last position of a character in a string, in the words of the
  specification (\<open>indexOf\<close> and \<open>lastIndexOf\<close> compute them by a scan).
\<close>

definition first_at :: "nat \<Rightarrow> ustring \<Rightarrow> nat \<Rightarrow> bool" where
  "first_at c s i = (i < length s \<and> s ! i = c \<and> c \<notin> set (take i s))"

definition last_at :: "nat \<Rightarrow> ustring \<Rightarrow> nat \<Rightarrow> bool" where
  "last_at c s j = (j < length s \<and> s ! j = c \<and> c \<notin> set (drop (Suc j) s))"



section \<open>Strings and property names\<close>

lemma str_eq_iff [simp]: "str a = str b \<longleftrightarrow> a = b"
  by (simp add: str_def inj_map_eq_map inj_on_def)

lemma str_Nil [simp]: "str [] = []"
  by (simp add: str_def)

lemma str_Cons: "str (c # cs) = of_char c # str cs"
  by (simp add: str_def)

lemma str_eq_Nil_iff [simp]: "str a = [] \<longleftrightarrow> a = []"
  by (simp add: str_def)

lemma Nil_eq_str_iff [simp]: "[] = str a \<longleftrightarrow> a = []"
  by (auto simp: str_def)

lemma str_append: "str (a @ b) = str a @ str b"
  by (simp add: str_def)

lemma show_nat_digits: "set (show_nat n) \<subseteq> {48..57}"
proof (induction n rule: show_nat.induct)
  case (1 n)
  show ?case
  proof (cases "n < 10")
    case True
    then show ?thesis by (subst show_nat.simps) (simp add: digit_unit_def)
  next
    case False
    have "n mod 10 < 10" by simp
    then have "digit_unit (n mod 10) \<in> {48..57}" by (simp add: digit_unit_def)
    then show ?thesis using 1 False by (subst show_nat.simps) simp
  qed
qed

lemma show_nat_not_Nil: "show_nat n \<noteq> []"
  by (subst show_nat.simps) simp

lemma not_numeral: "c \<in> set key \<Longrightarrow> c \<notin> {48..57} \<Longrightarrow> key \<noteq> show_nat n"
  using show_nat_digits [of n] by auto

lemma text_not_numeral [simp]: "str ''text'' \<noteq> show_nat n"
  by (rule not_numeral [where c = 116]) (simp_all add: str_def)

lemma completed_not_numeral [simp]: "str ''completed'' \<noteq> show_nat n"
  by (rule not_numeral [where c = 99]) (simp_all add: str_def)

section \<open>Validation accepts strings only\<close>

lemma validate_entries_None_iff:
  "validate_entries kvs = None \<longleftrightarrow> list_all (\<lambda>(key, v). string_array v) kvs"
  by (induction kvs rule: validate_entries.induct) (auto simp: string_array_def)

lemma validate_entries_first_failure:
  "list_all (\<lambda>(key, v). string_array v) pre \<Longrightarrow> \<not> string_array v \<Longrightarrow>
   validate_entries (pre @ (key, v) # post) =
     Some (if isArray v then \<lparr>isValid = False, error = Some (non_string_message key)\<rparr>
           else \<lparr>isValid = False, error = Some (not_array_message key v)\<rparr>)"
  by (induction pre rule: validate_entries.induct) (auto simp: string_array_def)

lemma validate_entries_failure_invalid:
  "validate_entries kvs = Some failure \<Longrightarrow> \<not> isValid failure"
  by (induction kvs rule: validate_entries.induct) (auto split: if_splits)

lemma validate_object_iff:
  "isValid (validateJsonStructure (JObj kvs)) \<longleftrightarrow>
     kvs \<noteq> [] \<and> list_all (\<lambda>(key, v). string_array v) kvs"
proof (cases "validate_entries kvs")
  case None
  then show ?thesis
    using validate_entries_None_iff [of kvs] by (simp add: validateJsonStructure_def)
next
  case (Some failure)
  then have "\<not> list_all (\<lambda>(key, v). string_array v) kvs"
    using validate_entries_None_iff [of kvs] by simp
  moreover have "\<not> isValid failure"
    using Some by (rule validate_entries_failure_invalid)
  ultimately show ?thesis
    using Some by (simp add: validateJsonStructure_def)
qed

text \<open>
  C1 (as the code has it). \<open>validateJsonStructure\<close> accepts an array element only when it is
  a string: an object is valid exactly when it has a key and every value is an array whose
  elements are strings. When the first key whose value is not such an array holds an array,
  validation fails with the message
  \<open>Invalid structure: department "key" contains non-string items\<close>, which names that key.
\<close>

theorem validate_accepts_strings_only:
  "(isValid (validateJsonStructure (JObj kvs)) \<longleftrightarrow>
      kvs \<noteq> [] \<and> list_all (\<lambda>(key, v). string_array v) kvs)
   \<and> (list_all (\<lambda>(key, v). string_array v) pre \<and>
        \<not> js_every (\<lambda>task. js_typeof task = str ''string'') tasks \<longrightarrow>
      validateJsonStructure (JObj (pre @ (key, JArr tasks ps) # post)) =
        \<lparr>isValid = False, error = Some (non_string_message key)\<rparr>)"
proof (intro conjI impI)
  show "isValid (validateJsonStructure (JObj kvs)) \<longleftrightarrow>
      kvs \<noteq> [] \<and> list_all (\<lambda>(key, v). string_array v) kvs"
    by (rule validate_object_iff)
next
  assume h: "list_all (\<lambda>(key, v). string_array v) pre \<and>
        \<not> js_every (\<lambda>task. js_typeof task = str ''string'') tasks"
  then have "\<not> string_array (JArr tasks ps)"
    by (simp add: string_array_def)
  with h show "validateJsonStructure (JObj (pre @ (key, JArr tasks ps) # post)) =
        \<lparr>isValid = False, error = Some (non_string_message key)\<rparr>"
    using validate_entries_first_failure [of pre "JArr tasks ps" key post]
    by (simp add: validateJsonStructure_def)
qed

theorem validate_accepts_strings_only_witness:
  "isValid (validateJsonStructure (JObj [(str ''A'', JArr [JStr (str ''x'')] [])]))
   \<and> validateJsonStructure
        (JObj ([(str ''A'', JArr [JStr (str ''x'')] [])]
               @ (str ''B'', JArr [JStr (str ''y''), JNum True (str ''3'')] []) # [(str ''C'', JNull)])) =
        \<lparr>isValid = False, error = Some (non_string_message (str ''B''))\<rparr>"
  using validate_accepts_strings_only
          [of "[(str ''A'', JArr [JStr (str ''x'')] [])]" "[(str ''A'', JArr [JStr (str ''x'')] [])]"
              "[JStr (str ''y''), JNum True (str ''3'')]" "str ''B''" "[]" "[(str ''C'', JNull)]"]
  by (simp add: string_array_def js_every_def)

text \<open>
  C1 as stated fails: an element that is an object with a \<open>text\<close> field is rejected, with
  the message for non-string items.
\<close>

theorem validate_rejects_text_object:
  "validateJsonStructure
     (JObj [(str ''A'', JArr [JObj [(str ''text'', JStr (str ''x''))]] [])]) =
     \<lparr>isValid = False, error = Some (non_string_message (str ''A''))\<rparr>"
  by (simp add: validateJsonStructure_def js_every_def)

section \<open>Arrays of strings validate and normalize to open tasks\<close>

lemma is_string_typeof: "is_string v \<longleftrightarrow> js_typeof v = str ''string''"
  by (cases v) auto

lemma strings_only_string_array: "strings_only v \<Longrightarrow> string_array v"
  by (cases v) (auto simp: string_array_def js_every_def list_all_iff is_string_typeof)

lemma convertTask_string: "is_string t \<Longrightarrow> convertTask t = task_obj t (JBool False)"
  by (cases t) (auto simp: convertTask_def)

lemma js_map_convert_strings:
  "list_all is_string xs \<Longrightarrow>
   js_map convertTask xs = JArr (map (\<lambda>t. task_obj t (JBool False)) xs) []"
  by (induction xs) (auto simp: js_map_def convertTask_string)

lemma convertDepartment_strings:
  "strings_only v \<Longrightarrow>
   convertDepartment v = JArr (map (\<lambda>t. task_obj t (JBool False)) (elements v)) []"
  by (cases v) (auto simp: convertDepartment_def js_map_convert_strings)

lemma converted_prototype_None:
  "list_all (\<lambda>(department, v). department \<noteq> proto_key) kvs \<Longrightarrow> converted_prototype kvs = None"
  by (induction kvs) auto

lemma convert_entries_strings:
  assumes "list_all (\<lambda>(department, v). department \<noteq> proto_key \<and> strings_only v) kvs"
  shows "convert_entries kvs =
           Dict (map (\<lambda>(department, v).
                        (department, JArr (map (\<lambda>t. task_obj t (JBool False)) (elements v)) []))
                   kvs) None"
proof -
  have p: "list_all (\<lambda>(department, v). department \<noteq> proto_key) kvs"
    using assms by (auto simp: list_all_iff)
  then have f: "filter (\<lambda>(department, v). department \<noteq> proto_key) kvs = kvs"
    by (auto simp: list_all_iff intro: filter_True)
  have "map (\<lambda>(department, v). (department, convertDepartment v)) kvs
        = map (\<lambda>(department, v).
                 (department, JArr (map (\<lambda>t. task_obj t (JBool False)) (elements v)) [])) kvs"
    using assms by (auto simp: list_all_iff convertDepartment_strings)
  then show ?thesis
    using p f by (simp add: convert_entries_def converted_prototype_None)
qed

text \<open>
  C4 (as the code has it). For every object with at least one key whose values are all
  arrays of strings, \<open>validateJsonStructure\<close> succeeds; when no key is \<open>__proto__\<close>,
  \<open>convertTasksToObjects\<close> yields an object with the prototype \<open>Object.prototype\<close> and the
  same keys in the same order, where each array holds, position by position, the task
  \<open>{ text: s, completed: false }\<close> for the original string \<open>s\<close>.
\<close>

theorem strings_validate_and_normalize:
  "(kvs \<noteq> [] \<and> list_all (\<lambda>(department, v). strings_only v) kvs \<longrightarrow>
      validateJsonStructure (JObj kvs) = \<lparr>isValid = True, error = None\<rparr>)
   \<and> (list_all (\<lambda>(department, v). department \<noteq> proto_key \<and> strings_only v) kvs \<longrightarrow>
      convertTasksToObjects (Parsed (JObj kvs)) =
        Collection
          (Dict (map (\<lambda>(department, v).
                        (department, JArr (map (\<lambda>t. task_obj t (JBool False)) (elements v)) []))
                   kvs) None))"
proof (intro impI conjI)
  assume h: "kvs \<noteq> [] \<and> list_all (\<lambda>(department, v). strings_only v) kvs"
  then have "list_all (\<lambda>(key, v). string_array v) kvs"
    by (auto simp: list_all_iff strings_only_string_array)
  then have "validate_entries kvs = None"
    by (simp add: validate_entries_None_iff)
  then show "validateJsonStructure (JObj kvs) = \<lparr>isValid = True, error = None\<rparr>"
    using h by (simp add: validateJsonStructure_def)
next
  assume "list_all (\<lambda>(department, v). department \<noteq> proto_key \<and> strings_only v) kvs"
  then show "convertTasksToObjects (Parsed (JObj kvs)) =
        Collection
          (Dict (map (\<lambda>(department, v).
                        (department, JArr (map (\<lambda>t. task_obj t (JBool False)) (elements v)) []))
                   kvs) None)"
    by (simp add: convert_entries_strings)
qed

theorem strings_validate_and_normalize_witness:
  "validateJsonStructure
     (JObj [(str ''Marketing'', JArr [JStr (str ''a''), JStr (str ''b'')] []), (str ''Legal'', JArr [] [])])
     = \<lparr>isValid = True, error = None\<rparr>
   \<and> convertTasksToObjects
       (Parsed (JObj [(str ''Marketing'', JArr [JStr (str ''a''), JStr (str ''b'')] []),
                      (str ''Legal'', JArr [] [])]))
     = Collection
         (Dict [(str ''Marketing'',
                 JArr [task_obj (JStr (str ''a'')) (JBool False), task_obj (JStr (str ''b'')) (JBool False)] []),
                (str ''Legal'', JArr [] [])] None)"
  using strings_validate_and_normalize
          [of "[(str ''Marketing'', JArr [JStr (str ''a''), JStr (str ''b'')] []), (str ''Legal'', JArr [] [])]"]
  by (simp add: proto_key_def)

text \<open>
  C4 as stated fails at the empty object: all of its values are arrays of strings, and
  validation rejects it.
\<close>

theorem empty_object_is_rejected:
  "validateJsonStructure (JObj []) =
     \<lparr>isValid = False,
      error = Some (str ''Invalid response: no departments found in the response'')\<rparr>"
  by (simp add: validateJsonStructure_def)

section \<open>Normalization and the key \<open>__proto__\<close>\<close>

lemma or_empty_idem: "or_empty (or_empty v) = or_empty v"
  by (simp add: or_empty_def)

lemma convertTask_task_obj:
  "convertTask (task_obj (or_empty t) (JBool c)) = task_obj (or_empty t) (JBool c)"
  by (simp add: convertTask_def task_obj_def or_empty_idem)

lemma convertTask_task_obj_str:
  "convertTask (task_obj (JStr s) (JBool c)) = task_obj (JStr s) (JBool c)"
  by (simp add: convertTask_def task_obj_def or_empty_def)

lemma convertTask_idem: "convertTask (convertTask t) = convertTask t"
proof (cases "js_typeof t = str ''object'' \<and> t \<noteq> JNull \<and> has_prop t TextField")
  case True
  then have "convertTask t =
      task_obj (or_empty (get_prop t TextField)) (JBool (get_prop t CompletedField = JBool True))"
    by (simp add: convertTask_def)
  then show ?thesis by (simp add: convertTask_task_obj)
next
  case False
  then obtain s where "convertTask t = task_obj (JStr s) (JBool False)"
    by (cases t) (auto simp: convertTask_def)
  then show ?thesis by (simp add: convertTask_task_obj_str)
qed

lemma convertTask_not_undefined: "convertTask t \<noteq> JUndefined"
  by (simp add: convertTask_def task_obj_def)

lemma js_map_convert_idem:
  "js_map convertTask (elements (js_map convertTask xs)) = js_map convertTask xs"
  by (induction xs) (auto simp: js_map_def convertTask_idem convertTask_not_undefined)

lemma convertDepartment_idem: "convertDepartment (convertDepartment v) = convertDepartment v"
  by (simp add: convertDepartment_def js_map_convert_idem) (simp add: js_map_def)

lemma convert_entries_idem:
  assumes "list_all (\<lambda>(department, v). department \<noteq> proto_key) es"
  shows "convert_entries (map (\<lambda>(department, v). (department, convertDepartment v)) es)
         = Dict (map (\<lambda>(department, v). (department, convertDepartment v)) es) None"
  using assms
proof -
  let ?es = "map (\<lambda>(department, v). (department, convertDepartment v)) es"
  have p: "list_all (\<lambda>(department, v). department \<noteq> proto_key) ?es"
    using assms by (auto simp: list_all_iff)
  then have f: "filter (\<lambda>(department, v). department \<noteq> proto_key) ?es = ?es"
    by (auto simp: list_all_iff intro: filter_True)
  have "map (\<lambda>(department, v). (department, convertDepartment v)) ?es = ?es"
    by (auto simp: convertDepartment_idem)
  then show ?thesis
    using converted_prototype_None [OF p] f by (simp add: convert_entries_def)
qed

lemma convert_entries_plain:
  assumes "list_all (\<lambda>(department, v). department \<noteq> proto_key) es"
  shows "convert_entries es = Dict (map (\<lambda>(department, v). (department, convertDepartment v)) es) None"
proof -
  have "filter (\<lambda>(department, v). department \<noteq> proto_key) es = es"
    using assms by (auto simp: list_all_iff intro: filter_True)
  then show ?thesis
    using converted_prototype_None [OF assms] by (simp add: convert_entries_def)
qed

text \<open>
  Away from the key \<open>__proto__\<close>, \<open>convertTasksToObjects\<close> is idempotent on every value (so
  on every value that passes validation).
\<close>

lemma convertTasksToObjects_idem:
  assumes "list_all (\<lambda>(department, v). department \<noteq> proto_key) (own_entries x)"
  shows "convertTasksToObjects (convertTasksToObjects (Parsed x)) = convertTasksToObjects (Parsed x)"
proof (cases "\<not> truthy x \<or> js_typeof x \<noteq> str ''object''")
  case True
  then show ?thesis by simp
next
  case False
  then show ?thesis
    using assms by (simp add: convert_entries_plain convert_entries_idem)
qed

lemma canonical_task_convert: "canonical_task t \<Longrightarrow> convertTask t = t"
  by (induction t rule: canonical_task.induct)
     (auto simp: convertTask_def task_obj_def or_empty_def)

lemma js_map_convert_canonical:
  "list_all canonical_task xs \<Longrightarrow> js_map convertTask xs = JArr xs []"
  by (induction xs) (auto simp: js_map_def canonical_task_convert)

lemma convertDepartment_canonical: "canonical_tasks v \<Longrightarrow> convertDepartment v = v"
  by (cases v) (auto simp: convertDepartment_def js_map_convert_canonical)

text \<open>
  A collection of canonical tasks without the key \<open>__proto__\<close>, as parsed or as built by an
  earlier call, is normalized to itself.
\<close>

lemma convertTasksToObjects_canonical:
  assumes "list_all (\<lambda>(department, v). department \<noteq> proto_key \<and> canonical_tasks v) kvs"
  shows "convertTasksToObjects (Parsed (JObj kvs)) = Collection (Dict kvs None)"
    and "convertTasksToObjects (Collection (Dict kvs None)) = Collection (Dict kvs None)"
proof -
  have p: "list_all (\<lambda>(department, v). department \<noteq> proto_key) kvs"
    using assms by (auto simp: list_all_iff)
  have "map (\<lambda>(department, v). (department, convertDepartment v)) kvs = kvs"
    using assms by (induction kvs) (auto simp: convertDepartment_canonical)
  then have "convert_entries kvs = Dict kvs None"
    using p by (simp add: convert_entries_plain)
  then show "convertTasksToObjects (Parsed (JObj kvs)) = Collection (Dict kvs None)"
    and "convertTasksToObjects (Collection (Dict kvs None)) = Collection (Dict kvs None)"
    by simp_all
qed

text \<open>
  C3 fails on the code at an object that passes validation and has the key \<open>__proto__\<close>,
  the parsed text \<open>{"__proto__": ["a"]}\<close>. The first call makes the converted array the
  prototype of its result, which has no property of its own; the second call finds the
  index \<open>0\<close> of that prototype in its loop and returns \<open>{"0": []}\<close>.
\<close>

theorem normalize_twice_at_proto_key:
  "isValid (validateJsonStructure (JObj [(str ''__proto__'', JArr [JStr (str ''a'')] [])]))
   \<and> convertTasksToObjects (Parsed (JObj [(str ''__proto__'', JArr [JStr (str ''a'')] [])]))
       = Collection (Dict [] (Some ([task_obj (JStr (str ''a'')) (JBool False)], [])))
   \<and> convertTasksToObjects
        (convertTasksToObjects (Parsed (JObj [(str ''__proto__'', JArr [JStr (str ''a'')] [])])))
       = Collection (Dict [(str ''0'', JArr [] [])] None)
   \<and> convertTasksToObjects
        (convertTasksToObjects (Parsed (JObj [(str ''__proto__'', JArr [JStr (str ''a'')] [])])))
       \<noteq> convertTasksToObjects (Parsed (JObj [(str ''__proto__'', JArr [JStr (str ''a'')] [])]))"
  by (simp add: validateJsonStructure_def js_every_def convert_entries_def convertDepartment_def
        js_map_def convertTask_def proto_key_def task_obj_def show_nat.simps digit_unit_def str_def)

theorem normalize_twice_at_proto_key_witness:
  "convertTasksToObjects
     (convertTasksToObjects (Parsed (JObj [(str ''__proto__'', JArr [JStr (str ''a'')] [])])))
   = Collection (Dict [(str ''0'', JArr [] [])] None)
   \<and> convertTasksToObjects
        (convertTasksToObjects (Parsed (JObj [(str ''__proto__'', JArr [JStr (str ''a'')] [])])))
       \<noteq> convertTasksToObjects (Parsed (JObj [(str ''__proto__'', JArr [JStr (str ''a'')] [])]))"
  using normalize_twice_at_proto_key by blast

section \<open>Transport errors are classified by status\<close>

text \<open>
  What the handler of the page does with a response that is not ok, with a body other than
  \<open>null\<close>: status 401 gives the auth error, status 429 the rate-limit error, every status
  of 500 or more the server error, and every other status, 403 among them, a generic error
  carrying the message of the response.
\<close>

lemma parseInstructions_failure_classification:
  "\<not> response_ok status \<Longrightarrow> errorData \<noteq> JNull \<Longrightarrow> errorData \<noteq> JUndefined \<Longrightarrow>
   parseInstructions_failure status errorData =
     Some (if status = 401 then auth_error
           else if status = 429 then rate_limit_error
           else if 500 \<le> status then server_error
           else Error (errorMessage status errorData))"
  by (simp add: parseInstructions_failure_def)

text \<open>
  The handler of the server, for the answer of the provider, treats 401 and 403 alike: both
  are answered with the auth error, 429 with the rate-limit error, every status of 500 or
  more with the server error, and every other status with a generic error that carries the
  provider's message.
\<close>

lemma provider_failure_classification:
  "\<not> response_ok status \<Longrightarrow> errorData \<noteq> JNull \<Longrightarrow> errorData \<noteq> JUndefined \<Longrightarrow>
   provider_failure status errorData =
     Some (if status = 401 \<or> status = 403 then
             Reply 401 (str ''Invalid API key. Please check your GEMINI_API_KEY environment variable.'')
           else if status = 429 then Reply 429 (str ''Rate limit exceeded. Please try again later.'')
           else if 500 \<le> status then
             Reply 502 (str ''Gemini API server error. Please try again later.'')
           else Reply status (str ''API Error: '' @ providerErrorMessage status errorData))"
  by (simp add: provider_failure_def)



section \<open>Task store: a department that is a key of the store\<close>

lemma map_of_set_prop [simp]: "map_of (set_prop kvs key v) = (map_of kvs)(key \<mapsto> v)"
  by (induction kvs key v rule: set_prop.induct) (auto simp: fun_eq_iff)

lemma set_prop_not_Nil [simp]: "set_prop kvs key v \<noteq> []"
  by (cases kvs) (auto split: if_splits)

lemma lookup_own: "map_of kvs key = Some v \<Longrightarrow> lookup (Dict kvs proto) key = Found v"
  by (cases "(Dict kvs proto, key)" rule: lookup.cases) auto

lemma changed_in_place_own:
  "map_of kvs key = Some w \<Longrightarrow> changed_in_place (Dict kvs proto) key v = Dict (set_prop kvs key v) proto"
  by (cases "(Dict kvs proto, key, v)" rule: changed_in_place.cases) auto


lemma map_of_mapped:
  "map_of (map (\<lambda>(key, v). (key, f v)) es) key = map_option f (map_of es key)"
  by (induction es) auto

lemma for_in_own: "map_of kvs key = Some v \<Longrightarrow> map_of (for_in (Dict kvs proto)) key = Some v"
  by (cases "Dict kvs proto" rule: for_in.cases) auto

lemma validateDataStructure_own:
  assumes "map_of kvs key = Some v"
  shows "\<exists>kvs'. validateDataStructure (Some (Dict kvs proto)) = Some (Dict kvs' proto)
               \<and> map_of kvs' key = Some (validateDepartment v)"
  using for_in_own [OF assms, of proto] by (simp add: map_of_mapped)

lemma renderDepartmentGroups_own:
  assumes "map_of kvs key = Some v"
  shows "\<exists>kvs'. renderDepartmentGroups (Some (Dict kvs proto)) = Some (Dict kvs' proto)
               \<and> map_of kvs' key = Some (validateDepartment v)"
proof -
  have "kvs \<noteq> []" using assms by auto
  then show ?thesis using validateDataStructure_own [OF assms, of proto] by simp
qed

lemma removeTask_own:
  assumes "map_of kvs department = Some (JArr xs ps)"
  shows "\<exists>kvs'. removeTask department index (Some (Dict kvs proto)) = Some (Dict kvs' proto)
               \<and> map_of kvs' department = Some (js_map validateTask (splice xs index 1))"
proof -
  have "map_of (set_prop kvs department (JArr (splice xs index 1) ps)) department
        = Some (JArr (splice xs index 1) ps)"
    by simp
  from renderDepartmentGroups_own [OF this, of proto]
  show ?thesis
    using assms by (simp add: lookup_own changed_in_place_own validateDepartment_def)
qed

lemma validateTask_task_obj:
  "validateTask (task_obj (JStr s) (JBool c)) = task_obj (JStr s) (JBool c)"
  by (simp add: validateTask_def task_obj_def or_empty_def)


lemma canonical_task_validate: "canonical_task t \<Longrightarrow> validateTask t = t"
  by (induction t rule: canonical_task.induct)
     (auto simp: validateTask_def task_obj_def or_empty_def)

lemma canonical_task_defined: "canonical_task t \<Longrightarrow> t \<noteq> JUndefined"
  by auto

lemma js_map_validate_canonical:
  "list_all canonical_task xs \<Longrightarrow> js_map validateTask xs = JArr xs []"
  by (induction xs) (auto simp: js_map_def canonical_task_validate)

lemma holdsE:
  assumes "holds currentData department v"
  obtains kvs proto where "currentData = Some (Dict kvs proto)" and "map_of kvs department = Some v"
  using assms by (cases "(currentData, department, v)" rule: holds.cases) auto

lemma holds_department_value:
  "holds currentData department v \<Longrightarrow> department_value currentData department = Found v"
  by (erule holdsE) (simp add: lookup_own)

lemma removeTask_holds:
  assumes "holds currentData department (JArr xs ps)"
  shows "holds (removeTask department index currentData) department
           (js_map validateTask (splice xs index 1))"
proof -
  from assms obtain kvs proto where
    c: "currentData = Some (Dict kvs proto)" and m: "map_of kvs department = Some (JArr xs ps)"
    by (rule holdsE)
  from removeTask_own [OF m, of index proto] show ?thesis
    using c by auto
qed

lemma updateTaskCompletionInData_holds:
  assumes "holds currentData department (JArr xs ps)"
    and "truthy (arr_get (JArr xs ps) index)"
    and "js_typeof (arr_get (JArr xs ps) index) = str ''object''"
  shows "holds (updateTaskCompletionInData department index completed currentData) department
           (arr_set (JArr xs ps) index
              (set_field (arr_get (JArr xs ps) index) CompletedField (JBool (completed = JBool True))))"
proof -
  from assms(1) obtain kvs proto where
    c: "currentData = Some (Dict kvs proto)" and m: "map_of kvs department = Some (JArr xs ps)"
    by (rule holdsE)
  show ?thesis
    using assms(2,3) m unfolding c
    by (simp add: lookup_own changed_in_place_own Let_def del: arr_get.simps arr_set.simps)
qed

lemma splice_middle: "splice [a, b, c] 1 1 = [a, c]"
  by (simp add: splice_def)

text \<open>
  C5. When a department of the store holds the tasks \<open>[a, b, c]\<close>, none completed,
  \<open>removeTask\<close> at index 1 leaves it holding \<open>[a, c]\<close>: the task that was at index 2 is now
  at index 1. A following \<open>updateTaskCompletionInData\<close> at index 1 with \<open>true\<close> marks \<open>c\<close>
  completed.
\<close>

theorem remove_then_complete:
  "holds currentData department
     (JArr [task_obj (JStr a) (JBool False), task_obj (JStr b) (JBool False),
            task_obj (JStr c) (JBool False)] ps) \<longrightarrow>
   department_value (removeTask department 1 currentData) department =
     Found (JArr [task_obj (JStr a) (JBool False), task_obj (JStr c) (JBool False)] [])
   \<and> department_value
       (updateTaskCompletionInData department 1 (JBool True) (removeTask department 1 currentData))
       department =
     Found (JArr [task_obj (JStr a) (JBool False), task_obj (JStr c) (JBool True)] [])"
proof (intro impI)
  assume h: "holds currentData department
     (JArr [task_obj (JStr a) (JBool False), task_obj (JStr b) (JBool False),
            task_obj (JStr c) (JBool False)] ps)"
  let ?after = "JArr [task_obj (JStr a) (JBool False), task_obj (JStr c) (JBool False)] []"
  have "js_map validateTask [task_obj (JStr a) (JBool False), task_obj (JStr c) (JBool False)] = ?after"
    by (rule js_map_validate_canonical) (simp add: task_obj_def)
  then have r: "holds (removeTask department 1 currentData) department ?after"
    using removeTask_holds [OF h, of 1] by (simp add: splice_middle)
  have "holds (updateTaskCompletionInData department 1 (JBool True) (removeTask department 1 currentData))
          department
          (arr_set ?after 1 (set_field (arr_get ?after 1) CompletedField (JBool (JBool True = JBool True))))"
    by (rule updateTaskCompletionInData_holds [OF r]) (simp_all add: is_array_index_def task_obj_def)
  then have
    "holds (updateTaskCompletionInData department 1 (JBool True) (removeTask department 1 currentData))
       department (JArr [task_obj (JStr a) (JBool False), task_obj (JStr c) (JBool True)] [])"
    by (simp add: is_array_index_def task_obj_def)
  then show "department_value (removeTask department 1 currentData) department = Found ?after
   \<and> department_value
       (updateTaskCompletionInData department 1 (JBool True) (removeTask department 1 currentData))
       department =
     Found (JArr [task_obj (JStr a) (JBool False), task_obj (JStr c) (JBool True)] [])"
    using r by (simp add: holds_department_value)
qed

theorem remove_then_complete_witness:
  "holds (Some (Dict [(str ''Marketing'',
                       JArr [task_obj (JStr (str ''a'')) (JBool False), task_obj (JStr (str ''b'')) (JBool False),
                             task_obj (JStr (str ''c'')) (JBool False)] [])] None))
     (str ''Marketing'')
     (JArr [task_obj (JStr (str ''a'')) (JBool False), task_obj (JStr (str ''b'')) (JBool False),
            task_obj (JStr (str ''c'')) (JBool False)] [])
   \<and> department_value
       (removeTask (str ''Marketing'') 1
          (Some (Dict [(str ''Marketing'',
                        JArr [task_obj (JStr (str ''a'')) (JBool False), task_obj (JStr (str ''b'')) (JBool False),
                              task_obj (JStr (str ''c'')) (JBool False)] [])] None)))
       (str ''Marketing'') =
     Found (JArr [task_obj (JStr (str ''a'')) (JBool False), task_obj (JStr (str ''c'')) (JBool False)] [])
   \<and> department_value
       (updateTaskCompletionInData (str ''Marketing'') 1 (JBool True)
          (removeTask (str ''Marketing'') 1
             (Some (Dict [(str ''Marketing'',
                           JArr [task_obj (JStr (str ''a'')) (JBool False), task_obj (JStr (str ''b'')) (JBool False),
                                 task_obj (JStr (str ''c'')) (JBool False)] [])] None))))
       (str ''Marketing'') =
     Found (JArr [task_obj (JStr (str ''a'')) (JBool False), task_obj (JStr (str ''c'')) (JBool True)] [])"
  using remove_then_complete
          [of "Some (Dict [(str ''Marketing'',
                            JArr [task_obj (JStr (str ''a'')) (JBool False), task_obj (JStr (str ''b'')) (JBool False),
                                  task_obj (JStr (str ''c'')) (JBool False)] [])] None)"
              "str ''Marketing''" "str ''a''" "str ''b''" "str ''c''" "[]"]
  by (simp only: holds.simps map_of.simps fst_conv snd_conv fun_upd_same)






text \<open>
  The re-rendering shows on a department that holds something other than canonical tasks,
  which the normalizer never puts in the store: with an index beyond the length nothing is
  removed from two bare strings, and each of them is replaced by its task object.
\<close>

lemma removeTask_normalizes_bare_strings:
  "department_value
     (removeTask (str ''M'') 5
        (Some (Dict [(str ''M'', JArr [JStr (str ''a''), JStr (str ''b'')] [])] None)))
     (str ''M'')
   = Found (JArr [task_obj (JStr (str ''a'')) (JBool False), task_obj (JStr (str ''b'')) (JBool False)] [])
   \<and> department_value
       (removeTask (str ''M'') 5
          (Some (Dict [(str ''M'', JArr [JStr (str ''a''), JStr (str ''b'')] [])] None)))
       (str ''M'')
   \<noteq> department_value
       (Some (Dict [(str ''M'', JArr [JStr (str ''a''), JStr (str ''b'')] [])] None)) (str ''M'')"
  by (simp add: splice_def validateDepartment_def js_map_def validateTask_def task_obj_def)

section \<open>Task store: adding a task\<close>

lemma proto_key_plain [simp]:
  "proto_key \<notin> set array_members" "proto_key \<notin> set object_members"
  "proto_key \<noteq> str ''length''" "proto_key \<noteq> show_nat n"
proof -
  show "proto_key \<notin> set array_members" by (simp add: proto_key_def array_members_def)
  show "proto_key \<notin> set object_members" by (simp add: proto_key_def object_members_def)
  show "proto_key \<noteq> str ''length''" by (simp add: proto_key_def)
  show "proto_key \<noteq> show_nat n"
    by (rule not_numeral [where c = 95]) (simp_all add: proto_key_def str_def)
qed

lemma validateTask_empty_task [simp]: "validateTask empty_task = empty_task"
  by (simp add: empty_task_def validateTask_task_obj)

lemma empty_task_defined [simp]: "empty_task \<noteq> JUndefined"
  by (simp add: empty_task_def task_obj_def)










section \<open>Task store: editing a text\<close>

lemma field_names_differ [simp]:
  "str ''text'' \<noteq> str ''completed''" "str ''completed'' \<noteq> str ''text''"
  by simp_all

















section \<open>Export text\<close>


lemma dropWhile_all_prefix: "list_all p xs \<Longrightarrow> dropWhile p (xs @ ys) = dropWhile p ys"
  by (induction xs) auto

lemma trim_end_append_spaces: "list_all is_space ws \<Longrightarrow> trim_end (s @ ws) = trim_end s"
proof -
  assume "list_all is_space ws"
  then have "list_all is_space (rev ws)" by (simp add: list_all_iff)
  then have "dropWhile is_space (rev ws @ rev s) = dropWhile is_space (rev s)"
    by (rule dropWhile_all_prefix)
  then show ?thesis by (simp add: trim_end_def)
qed

lemma trim_end_id: "s \<noteq> [] \<Longrightarrow> \<not> is_space (last s) \<Longrightarrow> trim_end s = s"
proof -
  assume "s \<noteq> []" "\<not> is_space (last s)"
  then have "rev s \<noteq> []" "\<not> is_space (hd (rev s))" by (simp_all add: hd_rev)
  then have "dropWhile is_space (rev s) = rev s" by (cases "rev s") auto
  then show ?thesis by (simp add: trim_end_def)
qed















section \<open>The fence pattern: the matcher and its closed form\<close>

lemma json_tag_length [simp]: "length json_tag = 4"
  by (simp add: json_tag_def)

lemma backtick_not_space: "\<not> is_space 96"
  by (simp add: is_space_def)

lemma starts_with_fence_hd: "starts_with fence (c # cs) \<Longrightarrow> c = 96"
  by (simp add: starts_with_def fence_def)

lemma find_sub_skip:
  "c \<noteq> 96 \<Longrightarrow> find_sub fence (c # cs) = map_option Suc (find_sub fence cs)"
  using starts_with_fence_hd [of c cs] by auto

lemma find_sub_nil [simp]: "find_sub fence [] = None"
  by (simp add: fence_def)

lemma find_sub_dropWhile:
  "find_sub fence s = map_option (\<lambda>j. j + length (takeWhile is_space s)) (find_sub fence (dropWhile is_space s))"
proof (induction s)
  case Nil
  then show ?case by simp
next
  case (Cons c cs)
  show ?case
  proof (cases "is_space c")
    case True
    then have "c \<noteq> 96" using backtick_not_space by auto
    then show ?thesis
      using Cons True by (simp add: find_sub_skip option.map_comp comp_def del: find_sub.simps)
  next
    case False
    then show ?thesis by (simp add: option.map_ident)
  qed
qed

lemma has_fence_dropWhile: "has_fence (dropWhile is_space s) = has_fence s"
  using find_sub_dropWhile [of s] by (simp add: has_fence_def)

lemma has_fence_drop: "has_fence (drop n s) \<Longrightarrow> has_fence s"
proof (induction s arbitrary: n)
  case Nil
  then show ?case by simp
next
  case (Cons c cs)
  show ?case
  proof (cases n)
    case 0
    then show ?thesis using Cons.prems by simp
  next
    case (Suc m)
    then have "has_fence cs" using Cons by simp
    then show ?thesis by (auto simp: has_fence_def)
  qed
qed

lemma has_fence_json:
  "starts_with json_tag s \<Longrightarrow> has_fence (drop 4 s) = has_fence s"
proof -
  assume "starts_with json_tag s"
  then obtain r where s: "s = json_tag @ r"
    by (metis append_take_drop_id starts_with_def)
  have "find_sub fence s = map_option (\<lambda>j. Suc (Suc (Suc (Suc j)))) (find_sub fence r)"
    unfolding s by (simp add: json_tag_def find_sub_skip option.map_comp comp_def del: find_sub.simps)
  then show ?thesis using s by (simp add: has_fence_def)
qed


lemma has_fence_skip: "c \<noteq> 96 \<Longrightarrow> has_fence (c # cs) = has_fence cs"
  by (simp add: has_fence_def find_sub_skip del: find_sub.simps)

lemma m_spaces_closing:
  "m_spaces (m_lit fence (\<lambda>rest. Some g)) s =
     (if starts_with fence (dropWhile is_space s) then Some g else None)"
proof (induction s)
  case Nil
  then show ?case by (simp add: m_lit_def)
next
  case (Cons c cs)
  show ?case
  proof (cases "is_space c")
    case True
    then have "\<not> starts_with fence (c # cs)"
      using starts_with_fence_hd [of c cs] backtick_not_space by auto
    then show ?thesis using True Cons by (simp add: m_lit_def)
  next
    case False
    then show ?thesis by (simp add: m_lit_def)
  qed
qed

lemma trim_end_Cons:
  "trim_end (c # u) = (if list_all is_space (c # u) then [] else c # trim_end u)"
proof -
  have d: "dropWhile is_space (rev u @ [c]) =
        (if list_all is_space (rev u) then dropWhile is_space [c] else dropWhile is_space (rev u) @ [c])"
    by (simp add: dropWhile_append list_all_iff)
  show ?thesis
    using d by (auto simp: trim_end_def list_all_iff dropWhile_eq_Nil_conv)
qed

lemma closing_here:
  assumes "starts_with fence (dropWhile is_space s)"
  shows "\<exists>j. find_sub fence s = Some j \<and> trim_end (take j s) = []"
proof -
  let ?w = "takeWhile is_space s"
  have "\<not> starts_with fence []" by (simp add: starts_with_def fence_def)
  then obtain c cs where "dropWhile is_space s = c # cs"
    using assms by (cases "dropWhile is_space s") auto
  then have "find_sub fence (dropWhile is_space s) = Some 0"
    using assms by simp
  then have f: "find_sub fence s = Some (length ?w)"
    using find_sub_dropWhile [of s] by simp
  have "take (length ?w) s = ?w"
    by (metis append_eq_conv_conj takeWhile_dropWhile_id)
  moreover have "trim_end ?w = []"
    by (simp add: trim_end_def dropWhile_eq_Nil_conv) (metis set_takeWhileD)
  ultimately show ?thesis using f by simp
qed

lemma closing_fun:
  "(\<lambda>captured. m_spaces (m_lit fence (\<lambda>rest. Some captured))) =
   (\<lambda>g s. if starts_with fence (dropWhile is_space s) then Some g else None)"
  by (intro ext) (rule m_spaces_closing)

lemma find_sub_starts: "find_sub fence cs = Some j \<Longrightarrow> starts_with fence (drop j cs)"
proof (induction cs arbitrary: j)
  case Nil
  then show ?case by (simp add: fence_def)
next
  case (Cons c cs)
  show ?case
  proof (cases "starts_with fence (c # cs)")
    case True
    then show ?thesis using Cons.prems by simp
  next
    case False
    then obtain j' where "find_sub fence cs = Some j'" "j = Suc j'"
      using Cons.prems by auto
    then show ?thesis using Cons.IH by simp
  qed
qed

lemma m_lazy_closing:
  "m_lazy (\<lambda>g s. if starts_with fence (dropWhile is_space s) then Some g else None) acc s =
     (case find_sub fence s of None \<Rightarrow> None | Some j \<Rightarrow> Some (acc @ trim_end (take j s)))"
proof (induction s arbitrary: acc)
  case Nil
  have "\<not> starts_with fence []" by (simp add: starts_with_def fence_def)
  then show ?case by (simp del: find_sub.simps)
next
  case (Cons c cs)
  let ?K = "\<lambda>g s. if starts_with fence (dropWhile is_space s) then Some g else None"
  show ?case
  proof (cases "starts_with fence (dropWhile is_space (c # cs))")
    case True
    then obtain j where "find_sub fence (c # cs) = Some j" "trim_end (take j (c # cs)) = []"
      using closing_here by blast
    moreover have "m_lazy ?K acc (c # cs) = Some acc"
      using True by (simp del: dropWhile.simps)
    ultimately show ?thesis by (simp del: find_sub.simps dropWhile.simps)
  next
    case False
    then have ns: "\<not> starts_with fence (c # cs)"
      using starts_with_fence_hd [of c cs] backtick_not_space by (cases "is_space c") auto
    have "m_lazy ?K acc (c # cs) = m_lazy ?K (acc @ [c]) cs"
      using False by (simp del: dropWhile.simps)
    then have step: "m_lazy ?K acc (c # cs) =
        (case find_sub fence cs of None \<Rightarrow> None | Some j \<Rightarrow> Some ((acc @ [c]) @ trim_end (take j cs)))"
      using Cons [of "acc @ [c]"] by simp
    show ?thesis
    proof (cases "find_sub fence cs")
      case None
      then show ?thesis using step ns by simp
    next
      case (Some j)
      have "\<not> list_all is_space (c # take j cs)"
      proof
        assume a: "list_all is_space (c # take j cs)"
        have sf: "starts_with fence (drop j cs)" using Some by (rule find_sub_starts)
        have "c # cs = (c # take j cs) @ drop j cs" by simp
        then have "dropWhile is_space (c # cs) = dropWhile is_space (drop j cs)"
          using a by (metis dropWhile_append2 list_all_iff)
        moreover have "dropWhile is_space (drop j cs) = drop j cs"
          using sf backtick_not_space
          by (cases "drop j cs") (auto simp: starts_with_def fence_def)
        ultimately show False using False sf by simp
      qed
      then have "trim_end (c # take j cs) = c # trim_end (take j cs)"
        by (simp add: trim_end_Cons)
      then show ?thesis using step ns Some by simp
    qed
  qed
qed

lemma m_lazy_capture:
  "m_lazy (\<lambda>captured. m_spaces (m_lit fence (\<lambda>rest. Some captured))) [] = capture_from"
  by (intro ext) (simp add: closing_fun m_lazy_closing capture_from_def split: option.splits)

lemma capture_from_None: "capture_from s = None \<longleftrightarrow> \<not> has_fence s"
  by (simp add: capture_from_def has_fence_def split: option.splits)

lemma m_spaces_capture: "m_spaces capture_from s = capture_from (dropWhile is_space s)"
proof (induction s)
  case Nil
  then show ?case by simp
next
  case (Cons c cs)
  show ?case
  proof (cases "is_space c")
    case True
    then have nb: "c \<noteq> 96" using backtick_not_space by auto
    show ?thesis
    proof (cases "capture_from (dropWhile is_space cs)")
      case None
      then have "\<not> has_fence (c # cs)"
        using has_fence_skip [OF nb, of cs] has_fence_dropWhile [of cs] by (simp add: capture_from_None)
      then have "capture_from (c # cs) = None" by (simp add: capture_from_None)
      then show ?thesis using True Cons None by simp
    next
      case (Some g)
      then show ?thesis using True Cons by simp
    qed
  next
    case False
    then show ?thesis by simp
  qed
qed

lemma m_lit_json: "m_lit json_tag k s = (if starts_with json_tag s then k (drop 4 s) else None)"
proof -
  have "length json_tag = 4" by (simp add: json_tag_def)
  then show ?thesis unfolding m_lit_def by (simp only:)
qed

lemma m_lit_fence: "m_lit fence k s = (if starts_with fence s then k (drop 3 s) else None)"
proof -
  have "length fence = 3" by (simp add: fence_def)
  then show ?thesis unfolding m_lit_def by (simp only:)
qed

lemma m_opt_json:
  "m_opt json_tag (m_spaces capture_from) s =
     capture_from (dropWhile is_space (if starts_with json_tag s then drop 4 s else s))"
proof (cases "starts_with json_tag s")
  case False
  then show ?thesis by (simp add: m_opt_def m_lit_json m_spaces_capture)
next
  case True
  show ?thesis
  proof (cases "capture_from (dropWhile is_space (drop 4 s))")
    case (Some g)
    then show ?thesis using True by (simp add: m_opt_def m_lit_json m_spaces_capture)
  next
    case None
    then have "\<not> has_fence s"
      using has_fence_json [OF True] has_fence_dropWhile [of "drop 4 s"]
      by (simp add: capture_from_None)
    then have "capture_from (dropWhile is_space s) = None"
      using has_fence_dropWhile [of s] by (simp add: capture_from_None)
    then show ?thesis using True None by (simp add: m_opt_def m_lit_json m_spaces_capture)
  qed
qed

lemma after_fence_None: "after_fence r = None \<longleftrightarrow> \<not> has_fence r"
proof (cases "starts_with json_tag r")
  case True
  then show ?thesis
    using has_fence_json [OF True] has_fence_dropWhile [of "drop 4 r"]
    by (simp add: after_fence_def capture_from_None)
next
  case False
  then show ?thesis
    using has_fence_dropWhile [of r] by (simp add: after_fence_def capture_from_None)
qed

lemma fence_pattern_eq:
  "fence_pattern s = (if starts_with fence s then after_fence (drop 3 s) else None)"
proof -
  have "m_opt json_tag (m_spaces capture_from) = after_fence"
    by (intro ext) (simp add: m_opt_json after_fence_def)
  then show ?thesis
    by (simp add: fence_pattern_def m_lazy_capture m_lit_fence)
qed

lemma fenced_capture_eq:
  "fenced_capture s = (case find_sub fence s of None \<Rightarrow> None | Some i \<Rightarrow> after_fence (drop (i + 3) s))"
  by (simp add: fenced_capture_def after_fence_def capture_from_def Let_def split: option.splits)

lemma fenced_capture_None: "\<not> has_fence (drop 3 s) \<Longrightarrow> fenced_capture (drop n s) = None"
proof (cases "find_sub fence (drop n s)")
  case None
  then show ?thesis by (simp add: fenced_capture_eq)
next
  case (Some i)
  assume a: "\<not> has_fence (drop 3 s)"
  have "drop (i + 3) (drop n s) = drop (i + n) (drop 3 s)" by (simp add: ac_simps)
  then have "\<not> has_fence (drop (i + 3) (drop n s))"
    using a has_fence_drop [of "i + n" "drop 3 s"] by auto
  then show ?thesis using Some by (simp add: fenced_capture_eq after_fence_None)
qed

lemma match_fenced_block_closed_form: "match_fenced_block s = fenced_capture s"
proof (induction s)
  case Nil
  then show ?case by (simp add: fence_pattern_eq fenced_capture_eq starts_with_def fence_def)
next
  case (Cons c cs)
  show ?case
  proof (cases "starts_with fence (c # cs)")
    case True
    then have f: "find_sub fence (c # cs) = Some 0" by simp
    show ?thesis
    proof (cases "after_fence (drop 3 (c # cs))")
      case (Some g)
      then show ?thesis using True f by (simp add: fence_pattern_eq fenced_capture_eq del: find_sub.simps)
    next
      case None
      then have "\<not> has_fence (drop 3 (c # cs))" by (simp add: after_fence_None)
      then have "fenced_capture (drop 1 (c # cs)) = None" by (rule fenced_capture_None)
      then show ?thesis
        using True f None Cons by (simp add: fence_pattern_eq fenced_capture_eq del: find_sub.simps)
    qed
  next
    case False
    then have f: "find_sub fence (c # cs) = map_option Suc (find_sub fence cs)" by simp
    have d: "drop (Suc i + 3) (c # cs) = drop (i + 3) cs" for i
      by (metis add_Suc drop_Suc_Cons)
    show ?thesis
    proof (cases "find_sub fence cs")
      case None
      then show ?thesis
        using False Cons f by (simp add: fence_pattern_eq fenced_capture_eq del: find_sub.simps)
    next
      case (Some i)
      then have "fenced_capture (c # cs) = after_fence (drop (Suc i + 3) (c # cs))"
        using f by (simp add: fenced_capture_eq del: find_sub.simps drop_Suc_Cons)
      then show ?thesis
        using False Cons Some d [of i]
        by (simp add: fence_pattern_eq fenced_capture_eq del: find_sub.simps drop_Suc_Cons)
    qed
  qed
qed

section \<open>Extraction\<close>

lemma index_from_absent: "index_from k c s = - 1 \<longleftrightarrow> c \<notin> set s"
  by (induction s arbitrary: k) auto

lemma index_from_first: "first_at c s i \<Longrightarrow> index_from k c s = int (k + i)"
proof (induction s arbitrary: k i)
  case Nil
  then show ?case by (simp add: first_at_def)
next
  case (Cons x s)
  show ?case
  proof (cases i)
    case 0
    then show ?thesis using Cons.prems by (simp add: first_at_def)
  next
    case (Suc i')
    then have "x \<noteq> c" and "first_at c s i'"
      using Cons.prems by (auto simp: first_at_def)
    then show ?thesis using Cons.IH [of i' "Suc k"] Suc by simp
  qed
qed

lemma indexOf_absent: "indexOf s c = - 1 \<longleftrightarrow> c \<notin> set s"
  by (simp add: indexOf_def index_from_absent)

lemma indexOf_first: "first_at c s i \<Longrightarrow> indexOf s c = int i"
  using index_from_first [of c s i 0] by (simp add: indexOf_def)

lemma last_index_from_absent: "c \<notin> set s \<Longrightarrow> last_index_from k c found s = found"
  by (induction s arbitrary: k found) auto

lemma last_index_from_last: "last_at c s j \<Longrightarrow> last_index_from k c found s = int (k + j)"
proof (induction s arbitrary: k j found)
  case Nil
  then show ?case by (simp add: last_at_def)
next
  case (Cons x s)
  show ?case
  proof (cases j)
    case 0
    then have "x = c" and "c \<notin> set s" using Cons.prems by (auto simp: last_at_def)
    then show ?thesis using 0 by (simp add: last_index_from_absent)
  next
    case (Suc j')
    then have "last_at c s j'" using Cons.prems by (auto simp: last_at_def)
    then show ?thesis using Cons.IH [of j' "Suc k"] Suc by simp
  qed
qed

lemma lastIndexOf_absent: "c \<notin> set s \<Longrightarrow> lastIndexOf s c = - 1"
  by (simp add: lastIndexOf_def last_index_from_absent)

lemma lastIndexOf_last: "last_at c s j \<Longrightarrow> lastIndexOf s c = int j"
  using last_index_from_last [of c s j 0] by (simp add: lastIndexOf_def)

lemma substring_slice:
  "i \<le> j \<Longrightarrow> j < length s \<Longrightarrow> substring s (int i) (int j + 1) = take (Suc j - i) (drop i s)"
proof -
  assume a: "i \<le> j" "j < length s"
  then have "nat (int j + 1 - int i) = Suc j - i" by linarith
  then show ?thesis
    using a by (simp add: substring_def Let_def min_def max_def)
qed

lemma brace_step_slice:
  assumes "first_at open_brace t i" "last_at close_brace t j" "i < j"
  shows "indexOf t open_brace = int i" "lastIndexOf t close_brace = int j"
    "substring t (int i) (int j + 1) = take (Suc j - i) (drop i t)"
proof -
  show "indexOf t open_brace = int i" using assms(1) by (rule indexOf_first)
  show "lastIndexOf t close_brace = int j" using assms(2) by (rule lastIndexOf_last)
  have "j < length t" using assms(2) by (simp add: last_at_def)
  then show "substring t (int i) (int j + 1) = take (Suc j - i) (drop i t)"
    using assms(3) by (intro substring_slice) simp_all
qed

lemma extract_slice:
  assumes "s \<noteq> []" "first_at open_brace (unfenced s) i" "last_at close_brace (unfenced s) j" "i < j"
  shows "extractJsonFromResponse s = Inr (take (Suc j - i) (drop i (unfenced s)))"
  using assms(1,4) brace_step_slice [OF assms(2,3,4)]
  by (simp add: extractJsonFromResponse_def Let_def)

lemma extract_no_slice:
  assumes "s \<noteq> []"
    and "open_brace \<notin> set (unfenced s) \<or> close_brace \<notin> set (unfenced s)
         \<or> (\<exists>i j. first_at open_brace (unfenced s) i \<and> last_at close_brace (unfenced s) j \<and> j < i)"
  shows "extractJsonFromResponse s = Inr (unfenced s)"
proof -
  consider "open_brace \<notin> set (unfenced s)" | "close_brace \<notin> set (unfenced s)"
    | i j where "first_at open_brace (unfenced s) i" "last_at close_brace (unfenced s) j" "j < i"
    using assms(2) by blast
  then show ?thesis
  proof cases
    case 1
    then have "indexOf (unfenced s) open_brace = - 1" by (simp add: indexOf_absent)
    then show ?thesis using assms(1) by (simp add: extractJsonFromResponse_def Let_def)
  next
    case 2
    then have "lastIndexOf (unfenced s) close_brace = - 1" by (rule lastIndexOf_absent)
    then show ?thesis using assms(1) by (simp add: extractJsonFromResponse_def Let_def)
  next
    case 3
    then have "indexOf (unfenced s) open_brace = int i" "lastIndexOf (unfenced s) close_brace = int j"
      by (simp_all add: indexOf_first lastIndexOf_last)
    then show ?thesis using 3(3) assms(1) by (simp add: extractJsonFromResponse_def Let_def)
  qed
qed

lemma gemini_slice:
  assumes "first_at open_brace s i" "last_at close_brace s j" "i < j"
  shows "extractJsonFromResponse_gemini s = Inr (take (Suc j - i) (drop i s))"
  using assms(3) brace_step_slice [OF assms]
  by (simp add: extractJsonFromResponse_gemini_def Let_def)

lemma gemini_fails:
  assumes "open_brace \<notin> set s \<or> close_brace \<notin> set s
         \<or> (\<exists>i j. first_at open_brace s i \<and> last_at close_brace s j \<and> j < i)"
  shows "extractJsonFromResponse_gemini s = Inl (Error (str ''No JSON object found in Gemini response''))"
proof -
  consider "open_brace \<notin> set s" | "close_brace \<notin> set s"
    | i j where "first_at open_brace s i" "last_at close_brace s j" "j < i"
    using assms by blast
  then show ?thesis
  proof cases
    case 1
    then have "indexOf s open_brace = - 1" by (simp add: indexOf_absent)
    then show ?thesis by (simp add: extractJsonFromResponse_gemini_def Let_def)
  next
    case 2
    then have "lastIndexOf s close_brace = - 1" by (rule lastIndexOf_absent)
    then show ?thesis by (simp add: extractJsonFromResponse_gemini_def Let_def)
  next
    case 3
    then have "indexOf s open_brace = int i" "lastIndexOf s close_brace = int j"
      by (simp_all add: indexOf_first lastIndexOf_last)
    then show ?thesis using 3(3) by (simp add: extractJsonFromResponse_gemini_def Let_def)
  qed
qed


lemma trim_end_empty [simp]: "trim_end [] = []"
  by (simp add: trim_end_def)

lemma trim_end_body:
  "body = [] \<or> \<not> is_space (last body) \<Longrightarrow> list_all is_space ws \<Longrightarrow> trim_end (body @ ws) = body"
proof (cases "body = []")
  case True
  assume "list_all is_space ws"
  then show ?thesis using True trim_end_append_spaces [of ws "[]"] by simp
next
  case False
  assume "body = [] \<or> \<not> is_space (last body)" "list_all is_space ws"
  then show ?thesis
    using False trim_end_append_spaces [of ws body] trim_end_id [of body] by simp
qed

lemma trim_padded:
  assumes "core \<noteq> []" "\<not> is_space (hd core)" "\<not> is_space (last core)"
    and "list_all is_space lead" "list_all is_space trail"
  shows "trim (lead @ core @ trail) = core"
proof -
  have "dropWhile is_space (lead @ core @ trail) = dropWhile is_space (core @ trail)"
    using assms(4) by (rule dropWhile_all_prefix)
  also have "\<dots> = core @ trail" using assms(1,2) by (cases core) auto
  finally show ?thesis
    using trim_end_body [of core trail] assms by (simp add: trim_def)
qed

lemma trim_body: "body = [] \<or> (\<not> is_space (hd body) \<and> \<not> is_space (last body)) \<Longrightarrow> trim body = body"
proof (cases "body = []")
  case True
  then show ?thesis by (simp add: trim_def)
next
  case False
  assume "body = [] \<or> (\<not> is_space (hd body) \<and> \<not> is_space (last body))"
  then show ?thesis using False trim_padded [of body "[]" "[]"] by simp
qed

lemma find_sub_fence:
  "96 \<notin> set pre \<Longrightarrow> find_sub fence (pre @ fence @ rest) = Some (length pre)"
proof (induction pre)
  case Nil
  then show ?case by (simp add: fence_def starts_with_def)
next
  case (Cons x pre)
  then have "x \<noteq> 96" by auto
  then have "\<not> starts_with fence (x # pre @ fence @ rest)"
    by (simp add: starts_with_def fence_def)
  then show ?case using Cons by simp
qed

lemma spaces_no_backtick: "list_all is_space ws \<Longrightarrow> 96 \<notin> set ws"
  using backtick_not_space by (auto simp: list_all_iff)

lemma fenced_capture_steps:
  assumes "find_sub fence s = Some i" "drop (i + 3) s = a"
    and "(if starts_with json_tag a then drop 4 a else a) = b"
    and "dropWhile is_space b = c" "find_sub fence c = Some j"
  shows "fenced_capture s = Some (trim_end (take j c))"
  unfolding fenced_capture_def Let_def assms(1) option.case assms(2) assms(3) assms(4) assms(5)
  by (rule refl)

lemma fenced_capture_shape:
  assumes pre: "96 \<notin> set pre"
    and tag: "tag = json_tag \<or> (tag = [] \<and> \<not> starts_with json_tag (ws1 @ body @ ws2 @ fence @ post))"
    and ws: "list_all is_space ws1" "list_all is_space ws2"
    and body: "96 \<notin> set body" "body = [] \<or> (\<not> is_space (hd body) \<and> \<not> is_space (last body))"
  shows "fenced_capture (pre @ fence @ tag @ ws1 @ body @ ws2 @ fence @ post) = Some body"
proof -
  let ?rest = "ws1 @ body @ ws2 @ fence @ post"
  have f: "find_sub fence (pre @ fence @ tag @ ?rest) = Some (length pre)"
    using pre by (rule find_sub_fence)
  have d: "drop (length pre + 3) (pre @ fence @ tag @ ?rest) = tag @ ?rest"
    by (simp add: fence_def)
  have t: "(if starts_with json_tag (tag @ ?rest) then drop 4 (tag @ ?rest) else tag @ ?rest) = ?rest"
    using tag by (auto simp: starts_with_def)
  have r: "dropWhile is_space ?rest = dropWhile is_space (body @ ws2 @ fence @ post)"
    using ws(1) by (rule dropWhile_all_prefix)
  show ?thesis
  proof (cases "body = []")
    case True
    have "dropWhile is_space (ws2 @ fence @ post) = dropWhile is_space (fence @ post)"
      using ws(2) by (rule dropWhile_all_prefix)
    also have "\<dots> = fence @ post" using backtick_not_space by (simp add: fence_def)
    finally have w: "dropWhile is_space ?rest = fence @ post" using r True by simp
    have c: "find_sub fence (fence @ post) = Some 0"
      using find_sub_fence [of "[]" post] by simp
    show ?thesis
      using fenced_capture_steps [OF f d t w c] True by simp
  next
    case False
    then have w: "dropWhile is_space ?rest = body @ ws2 @ fence @ post"
      using r body(2) by (cases body) auto
    have "96 \<notin> set (body @ ws2)"
      using body(1) spaces_no_backtick [OF ws(2)] by simp
    then have "find_sub fence ((body @ ws2) @ fence @ post) = Some (length (body @ ws2))"
      by (rule find_sub_fence)
    then have c: "find_sub fence (body @ ws2 @ fence @ post) = Some (length body + length ws2)"
      by simp
    have e: "trim_end (take (length body + length ws2) (body @ ws2 @ fence @ post)) = body"
      using trim_end_body [of body ws2] body(2) ws(2) by auto
    show ?thesis
      using fenced_capture_steps [OF f d t w c] e by simp
  qed
qed

lemma unfenced_block:
  assumes "list_all is_space lead" "list_all is_space trail"
    and "pre = [] \<or> \<not> is_space (hd pre)" "post = [] \<or> \<not> is_space (last post)"
    and pre: "96 \<notin> set pre"
    and tag: "tag = json_tag \<or> (tag = [] \<and> \<not> starts_with json_tag (ws1 @ body @ ws2 @ fence @ post))"
    and ws: "list_all is_space ws1" "list_all is_space ws2"
    and body: "96 \<notin> set body" "body = [] \<or> (\<not> is_space (hd body) \<and> \<not> is_space (last body))"
  shows "unfenced (lead @ pre @ fence @ tag @ ws1 @ body @ ws2 @ fence @ post @ trail) = body"
proof -
  let ?core = "pre @ fence @ tag @ ws1 @ body @ ws2 @ fence @ post"
  have "?core \<noteq> []" by (simp add: fence_def)
  moreover have "\<not> is_space (hd ?core)"
    using assms(3) backtick_not_space by (cases pre) (auto simp: fence_def)
  moreover have "\<not> is_space (last ?core)"
    using assms(4) backtick_not_space by (cases "post = []") (auto simp: fence_def)
  ultimately have "trim (lead @ ?core @ trail) = ?core"
    using assms(1,2) by (rule trim_padded)
  then have "trim (lead @ pre @ fence @ tag @ ws1 @ body @ ws2 @ fence @ post @ trail) = ?core"
    by simp
  then show ?thesis
    using fenced_capture_shape [OF pre tag ws body] trim_body [OF body(2)]
    by (simp add: unfenced_def match_fenced_block_closed_form Let_def)
qed

lemma unfenced_no_fence:
  "96 \<notin> set s \<Longrightarrow> unfenced s = trim s"
proof -
  assume a: "96 \<notin> set s"
  have "set (trim_end u) \<subseteq> set u" for u
    using set_dropWhileD [of _ is_space "rev u"] by (auto simp: trim_end_def)
  then have "set (trim s) \<subseteq> set (dropWhile is_space s)"
    by (simp add: trim_def)
  then have "set (trim s) \<subseteq> set s"
    using set_dropWhileD [of _ is_space s] by blast
  then have n: "96 \<notin> set (trim s)" using a by auto
  have "find_sub fence t = None" if "96 \<notin> set t" for t
    using that by (induction t) (auto simp: fence_def starts_with_def)
  then show ?thesis
    using n by (simp add: unfenced_def match_fenced_block_closed_form fenced_capture_def Let_def)
qed

lemma unfenced_closed_form:
  "unfenced s = (case fenced_capture (trim s) of Some g \<Rightarrow> trim g | None \<Rightarrow> trim s)"
  by (simp add: unfenced_def match_fenced_block_closed_form Let_def)

lemma fenced_capture_present:
  "fenced_capture u \<noteq> None \<longleftrightarrow> (\<exists>i. find_sub fence u = Some i \<and> has_fence (drop (i + 3) u))"
  by (cases "find_sub fence u") (simp_all add: fenced_capture_eq after_fence_None)

text \<open>
  C2 (as the code has it). \<open>extractJsonFromResponse\<close> of \<open>src/index.js\<close> fails only on the
  empty string. Otherwise it trims the text and, when the trimmed text holds a fenced block,
  takes the trimmed content of the block, else keeps the trimmed text. A fenced block is
  there when a fence follows the first fence; after the first fence the tag \<open>json\<close>, if it
  stands there, and the white space are passed over, and the content ends before the white
  space that precedes the next fence (\<open>fenced_capture\<close>). Of the text so obtained it returns
  the inclusive substring from the first \<open>{\<close> to the last \<open>}\<close> when the last \<open>}\<close> comes after
  the first \<open>{\<close>; when there is no \<open>{\<close>, no \<open>}\<close>, or the last \<open>}\<close> comes before the first
  \<open>{\<close>, it returns the text as it is and does not fail.
  The variant in the page script bundled in \<open>server.js\<close> takes the same substring of the
  whole text, without trimming or looking for a fence, and fails with an extraction error
  exactly in those three cases.
\<close>

theorem extract_behaviour:
  "((\<exists>e. extractJsonFromResponse s = Inl e) \<longleftrightarrow> s = [])
   \<and> unfenced s = (case fenced_capture (trim s) of Some g \<Rightarrow> trim g | None \<Rightarrow> trim s)
   \<and> (fenced_capture u \<noteq> None \<longleftrightarrow>
        (\<exists>k. find_sub fence u = Some k \<and> has_fence (drop (k + 3) u)))
   \<and> (s \<noteq> [] \<and> first_at open_brace (unfenced s) i \<and> last_at close_brace (unfenced s) j \<and> i < j \<longrightarrow>
        extractJsonFromResponse s = Inr (take (Suc j - i) (drop i (unfenced s))))
   \<and> (s \<noteq> [] \<and> (open_brace \<notin> set (unfenced s) \<or> close_brace \<notin> set (unfenced s)
                  \<or> (first_at open_brace (unfenced s) i \<and> last_at close_brace (unfenced s) j \<and> j < i)) \<longrightarrow>
        extractJsonFromResponse s = Inr (unfenced s))
   \<and> (96 \<notin> set s \<longrightarrow> unfenced s = trim s)
   \<and> (list_all is_space lead \<and> list_all is_space trail
        \<and> 96 \<notin> set pre \<and> (pre = [] \<or> \<not> is_space (hd pre)) \<and> (post = [] \<or> \<not> is_space (last post))
        \<and> (tag = json_tag \<or> (tag = [] \<and> \<not> starts_with json_tag (ws1 @ body @ ws2 @ fence @ post)))
        \<and> list_all is_space ws1 \<and> list_all is_space ws2
        \<and> 96 \<notin> set body \<and> (body = [] \<or> (\<not> is_space (hd body) \<and> \<not> is_space (last body))) \<longrightarrow>
        unfenced (lead @ pre @ fence @ tag @ ws1 @ body @ ws2 @ fence @ post @ trail) = body)
   \<and> (first_at open_brace t i \<and> last_at close_brace t j \<and> i < j \<longrightarrow>
        extractJsonFromResponse_gemini t = Inr (take (Suc j - i) (drop i t)))
   \<and> (open_brace \<notin> set t \<or> close_brace \<notin> set t
        \<or> (first_at open_brace t i \<and> last_at close_brace t j \<and> j < i) \<longrightarrow>
        extractJsonFromResponse_gemini t
          = Inl (Error (str ''No JSON object found in Gemini response'')))"
proof (intro conjI impI)
  show "(\<exists>e. extractJsonFromResponse s = Inl e) \<longleftrightarrow> s = []"
    by (simp add: extractJsonFromResponse_def Let_def)
next
  show "unfenced s = (case fenced_capture (trim s) of Some g \<Rightarrow> trim g | None \<Rightarrow> trim s)"
    by (rule unfenced_closed_form)
next
  show "fenced_capture u \<noteq> None \<longleftrightarrow>
        (\<exists>k. find_sub fence u = Some k \<and> has_fence (drop (k + 3) u))"
    by (rule fenced_capture_present)
next
  assume "s \<noteq> [] \<and> first_at open_brace (unfenced s) i \<and> last_at close_brace (unfenced s) j \<and> i < j"
  then show "extractJsonFromResponse s = Inr (take (Suc j - i) (drop i (unfenced s)))"
    using extract_slice [of s i j] by simp
next
  assume "s \<noteq> [] \<and> (open_brace \<notin> set (unfenced s) \<or> close_brace \<notin> set (unfenced s)
                  \<or> (first_at open_brace (unfenced s) i \<and> last_at close_brace (unfenced s) j \<and> j < i))"
  then show "extractJsonFromResponse s = Inr (unfenced s)"
    using extract_no_slice [of s] by blast
next
  assume "96 \<notin> set s"
  then show "unfenced s = trim s" by (rule unfenced_no_fence)
next
  assume "list_all is_space lead \<and> list_all is_space trail
        \<and> 96 \<notin> set pre \<and> (pre = [] \<or> \<not> is_space (hd pre)) \<and> (post = [] \<or> \<not> is_space (last post))
        \<and> (tag = json_tag \<or> (tag = [] \<and> \<not> starts_with json_tag (ws1 @ body @ ws2 @ fence @ post)))
        \<and> list_all is_space ws1 \<and> list_all is_space ws2
        \<and> 96 \<notin> set body \<and> (body = [] \<or> (\<not> is_space (hd body) \<and> \<not> is_space (last body)))"
  then show "unfenced (lead @ pre @ fence @ tag @ ws1 @ body @ ws2 @ fence @ post @ trail) = body"
    by (intro unfenced_block) simp_all
next
  assume "first_at open_brace t i \<and> last_at close_brace t j \<and> i < j"
  then show "extractJsonFromResponse_gemini t = Inr (take (Suc j - i) (drop i t))"
    using gemini_slice [of t i j] by simp
next
  assume "open_brace \<notin> set t \<or> close_brace \<notin> set t
        \<or> (first_at open_brace t i \<and> last_at close_brace t j \<and> j < i)"
  then show "extractJsonFromResponse_gemini t
          = Inl (Error (str ''No JSON object found in Gemini response''))"
    using gemini_fails [of t] by blast
qed

theorem extract_behaviour_witness:
  "extractJsonFromResponse (str ''prefix {A} suffix'') = Inr (str ''{A}'')
   \<and> extractJsonFromResponse (str '' } no object { '') = Inr (str ''} no object {'')
   \<and> unfenced (str '' '' @ str ''Here: '' @ fence @ json_tag @ nl @ str ''{A}'' @ nl @ fence
               @ str '' ok'' @ nl) = str ''{A}''
   \<and> extractJsonFromResponse_gemini (str ''x {A} y'') = Inr (str ''{A}'')
   \<and> extractJsonFromResponse_gemini (str ''no braces'')
       = Inl (Error (str ''No JSON object found in Gemini response''))"
proof -
  note slice = extract_behaviour
    [THEN conjunct2, THEN conjunct2, THEN conjunct2, THEN conjunct1, rule_format]
  note keep = extract_behaviour
    [THEN conjunct2, THEN conjunct2, THEN conjunct2, THEN conjunct2, THEN conjunct1, rule_format]
  note plain = extract_behaviour
    [THEN conjunct2, THEN conjunct2, THEN conjunct2, THEN conjunct2, THEN conjunct2,
     THEN conjunct1, rule_format]
  note block = extract_behaviour
    [THEN conjunct2, THEN conjunct2, THEN conjunct2, THEN conjunct2, THEN conjunct2,
     THEN conjunct2, THEN conjunct1, rule_format]
  note gslice = extract_behaviour
    [THEN conjunct2, THEN conjunct2, THEN conjunct2, THEN conjunct2, THEN conjunct2,
     THEN conjunct2, THEN conjunct2, THEN conjunct1, rule_format]
  note gfail = extract_behaviour
    [THEN conjunct2, THEN conjunct2, THEN conjunct2, THEN conjunct2, THEN conjunct2,
     THEN conjunct2, THEN conjunct2, THEN conjunct2, rule_format]
  have u1: "unfenced (str ''prefix {A} suffix'') = str ''prefix {A} suffix''"
    using plain [where s = "str ''prefix {A} suffix''"]
    by (simp add: trim_def trim_end_def is_space_def str_def)
  have u2: "unfenced (str '' } no object { '') = str ''} no object {''"
    using plain [where s = "str '' } no object { ''"]
    by (simp add: trim_def trim_end_def is_space_def str_def)
  have a: "extractJsonFromResponse (str ''prefix {A} suffix'') = Inr (str ''{A}'')"
    using slice [where s = "str ''prefix {A} suffix''" and i = 7 and j = 9] u1
    by (simp add: first_at_def last_at_def open_brace_def close_brace_def str_def)
  have b: "extractJsonFromResponse (str '' } no object { '') = Inr (str ''} no object {'')"
    using keep [where s = "str '' } no object { ''" and i = 12 and j = 0] u2
    by (simp add: first_at_def last_at_def open_brace_def close_brace_def str_def)
  have c: "unfenced (str '' '' @ str ''Here: '' @ fence @ json_tag @ nl @ str ''{A}'' @ nl @ fence
               @ str '' ok'' @ nl) = str ''{A}''"
    using block [where lead = "str '' ''" and pre = "str ''Here: ''" and tag = json_tag
        and ?ws1.0 = nl and body = "str ''{A}''" and ?ws2.0 = nl and post = "str '' ok''" and trail = nl]
    by (simp add: is_space_def nl_def str_def)
  have d: "extractJsonFromResponse_gemini (str ''x {A} y'') = Inr (str ''{A}'')"
    using gslice [where t = "str ''x {A} y''" and i = 2 and j = 4]
    by (simp add: first_at_def last_at_def open_brace_def close_brace_def str_def)
  have e: "extractJsonFromResponse_gemini (str ''no braces'')
       = Inl (Error (str ''No JSON object found in Gemini response''))"
    using gfail [where t = "str ''no braces''"]
    by (simp add: open_brace_def close_brace_def str_def)
  show ?thesis using a b c d e by simp
qed

text \<open>
  C2 as stated fails: on a text without braces, here between two no-break spaces,
  \<open>extractJsonFromResponse\<close> returns the trimmed text instead of failing; it cuts the braces
  out of a fenced content as well; and the variant in \<open>server.js\<close> looks for braces through
  a fenced block and beyond it.
\<close>

theorem extract_does_not_fail_without_braces:
  "extractJsonFromResponse ([0xA0] @ str ''no braces'' @ [0xA0]) = Inr (str ''no braces'')
   \<and> extractJsonFromResponse (fence @ str ''x {a} y'' @ fence) = Inr (str ''{a}'')
   \<and> extractJsonFromResponse_gemini (fence @ str ''{a}'' @ fence @ str '' {b}'')
       = Inr (str ''{a}'' @ fence @ str '' {b}'')"
  by (simp add: extractJsonFromResponse_def extractJsonFromResponse_gemini_def unfenced_def
        match_fenced_block_closed_form fenced_capture_def fence_def json_tag_def starts_with_def
        trim_def trim_end_def is_space_def indexOf_def lastIndexOf_def substring_def Let_def
        open_brace_def close_brace_def str_def)

end
